theory Spec2Isabelle
  imports Main "HOL-Library.Finite_Map" "HOL-Library.Multiset"
begin

section \<open>Package gmap: a hash map of dynamically typed keys and values\<close>

text \<open>
  The embedding follows \<^verbatim>\<open>g/container/gmap/gmap.go\<close>. A method of \<^verbatim>\<open>*Map\<close> becomes a
  function that takes the receiver and returns the receiver after the call next to the
  method's result. The reader/writer lock \<^verbatim>\<open>mu\<close> delimits the sections of a method that
  run atomically: a section between \<^verbatim>\<open>Lock\<close> and \<^verbatim>\<open>Unlock\<close> (or \<^verbatim>\<open>RLock\<close> and
  \<^verbatim>\<open>RUnlock\<close>) is one step of the model, and a method that takes the lock twice
  (\<^verbatim>\<open>GetOrSet\<close>, \<^verbatim>\<open>SetIfNotExist\<close> and their variants) takes as a parameter what the other
  goroutines do to the program state between its two sections. A panic is a result of
  the function. The methods that only read or copy the map (\<^verbatim>\<open>Iterator\<close>, \<^verbatim>\<open>Clone\<close>,
  \<^verbatim>\<open>Map\<close>, \<^verbatim>\<open>Keys\<close>, \<^verbatim>\<open>Values\<close>, the \<^verbatim>\<open>GetVar\<close> family) and the two that hand the map to
  a callback (\<^verbatim>\<open>LockFunc\<close>, \<^verbatim>\<open>RLockFunc\<close>) are left out.
\<close>

subsection \<open>Values of type \<^verbatim>\<open>interface{}\<close>\<close>

text \<open>
  \<open>key\<close> holds the dynamic values that are comparable and equal to themselves: the nil
  interface, booleans, integers and strings stand for them. \<open>val\<close> is any
  \<^verbatim>\<open>interface{}\<close> value: one of those; \<open>NaN\<close>, a value that is comparable and hashable
  but not equal to itself, nor to anything else (a floating-point NaN, or a struct or array
  that holds one); a function value of dynamic type \<^verbatim>\<open>func() interface{}\<close> (a reference to a
  closure); or any other value that cannot be hashed (a slice, a map, a function of another
  type).
\<close>

datatype key = KNil | KBool bool | KInt int | KStr string

type_synonym fid = nat

datatype val = Cmp key | NaN | Func fid | Other nat

abbreviation nil :: val where
  "nil \<equiv> Cmp KNil"

fun hashable :: "val \<Rightarrow> bool" where
  "hashable (Cmp k) = True"
| "hashable NaN = True"
| "hashable (Func f) = False"
| "hashable (Other x) = False"

text \<open>
  The run-time panics: \<open>Unhashable\<close> is \<^verbatim>\<open>hash of unhashable type\<close>, raised by indexing a
  \<^verbatim>\<open>map[interface{}]interface{}\<close> with a key that is not comparable; \<open>NilMap\<close> is
  \<^verbatim>\<open>assignment to entry in nil map\<close>; \<open>Aborted\<close> says that a function value called by the
  map did not return (it panicked, it is the nil function, or it runs forever).
\<close>

datatype fault = Unhashable | NilMap | Aborted

text \<open>
  A Go map is nil or made. A made map holds at most one entry for a key that equals
  itself, and one entry for every assignment under a NaN key: no lookup finds such an
  entry and no assignment replaces it, and \<^verbatim>\<open>len\<close> and \<^verbatim>\<open>range\<close> see it. \<open>elems\<close> is the
  entries under the keys that equal themselves, \<open>nans\<close> the values under the NaN keys.
\<close>

datatype go_map = Nil_map | Made "(key, val) fmap" "val multiset"

fun elems :: "go_map \<Rightarrow> (key, val) fmap" where
  "elems Nil_map = fmempty"
| "elems (Made e n) = e"

fun nans :: "go_map \<Rightarrow> val multiset" where
  "nans Nil_map = {#}"
| "nans (Made e n) = n"

definition make_map :: go_map where
  "make_map = Made fmempty {#}"

definition len :: "go_map \<Rightarrow> nat" where
  "len d = fcard (fmdom (elems d)) + size (nans d)"

definition bind :: "fault + 'a \<Rightarrow> ('a \<Rightarrow> fault + 'b) \<Rightarrow> fault + 'b" where
  "bind r f = (case r of Inl e \<Rightarrow> Inl e | Inr x \<Rightarrow> f x)"

text \<open>
  The three map statements of Go: \<^verbatim>\<open>v, ok := d[k]\<close>, \<^verbatim>\<open>d[k] = v\<close> and \<^verbatim>\<open>delete(d, k)\<close>.
  A read and a delete hash the key also when the map is nil or empty; an assignment looks
  at the map first.
\<close>

fun mapaccess :: "go_map \<Rightarrow> val \<Rightarrow> fault + val option" where
  "mapaccess d (Cmp k) = Inr (fmlookup (elems d) k)"
| "mapaccess d NaN = Inr None"
| "mapaccess d _ = Inl Unhashable"

fun mapassign :: "go_map \<Rightarrow> val \<Rightarrow> val \<Rightarrow> fault + go_map" where
  "mapassign Nil_map k v = Inl NilMap"
| "mapassign (Made e n) (Cmp k) v = Inr (Made (fmupd k v e) n)"
| "mapassign (Made e n) NaN v = Inr (Made e (add_mset v n))"
| "mapassign (Made e n) _ v = Inl Unhashable"

fun mapdelete :: "go_map \<Rightarrow> val \<Rightarrow> fault + go_map" where
  "mapdelete Nil_map (Cmp k) = Inr Nil_map"
| "mapdelete (Made e n) (Cmp k) = Inr (Made (fmdrop k e) n)"
| "mapdelete d NaN = Inr d"
| "mapdelete d _ = Inl Unhashable"

text \<open>
  A \<^verbatim>\<open>range\<close> loop visits the entries of a map in an order that the run time chooses.
  The loops below take that order as a list of entries; \<open>range_order d es\<close> says that
  \<open>es\<close> is the entries of \<open>d\<close>, each once. \<open>eq_entries\<close> and \<open>nan_entries\<close> pick the
  entries under the two kinds of key.
\<close>

fun eq_entries :: "(val \<times> val) list \<Rightarrow> (key \<times> val) list" where
  "eq_entries [] = []"
| "eq_entries ((Cmp k, v) # es) = (k, v) # eq_entries es"
| "eq_entries (_ # es) = eq_entries es"

fun nan_entries :: "(val \<times> val) list \<Rightarrow> val list" where
  "nan_entries [] = []"
| "nan_entries ((NaN, v) # es) = v # nan_entries es"
| "nan_entries (_ # es) = nan_entries es"

definition range_order :: "go_map \<Rightarrow> (val \<times> val) list \<Rightarrow> bool" where
  "range_order d es \<longleftrightarrow>
     list_all (\<lambda>(k, v). hashable k) es \<and> distinct (map fst (eq_entries es))
     \<and> fmap_of_list (eq_entries es) = elems d \<and> mset (nan_entries es) = nans d"

subsection \<open>The struct and its constructors\<close>

text \<open>
  Modelled from the spec: package \<^verbatim>\<open>rwmutex\<close> is not among the sources. The spec gives the
  wrapper a mode flag that is fixed at creation, safe unless the caller asks for the
  unsafe mode.
\<close>

record RWMutex =
  safe :: bool

definition rwmutex_New :: "bool list \<Rightarrow> RWMutex" where
  "rwmutex_New unsafe = \<lparr>safe = (case unsafe of [] \<Rightarrow> True | u # _ \<Rightarrow> \<not> u)\<rparr>"

record gmap =
  mu :: RWMutex
  data :: go_map

definition New :: "bool list \<Rightarrow> gmap" where
  "New unsafe = \<lparr>mu = rwmutex_New unsafe, data = make_map\<rparr>"

text \<open>\<^verbatim>\<open>NewFrom\<close> keeps the map it is given, nil or not.\<close>

definition NewFrom :: "go_map \<Rightarrow> bool list \<Rightarrow> gmap" where
  "NewFrom d unsafe = \<lparr>mu = rwmutex_New unsafe, data = d\<rparr>"

text \<open>
  The loop of \<^verbatim>\<open>NewFromArray\<close>: \<open>i\<close> is the index of the head of the keys that are
  left, and \<open>length values\<close> is \<^verbatim>\<open>l\<close>.
\<close>

fun NewFromArray_loop :: "val list \<Rightarrow> val list \<Rightarrow> nat \<Rightarrow> go_map \<Rightarrow> fault + go_map" where
  "NewFromArray_loop [] values i m = Inr m"
| "NewFromArray_loop (k # keys) values i m =
     bind (if i < length values then mapassign m k (values ! i) else mapassign m k nil)
       (\<lambda>m'. NewFromArray_loop keys values (Suc i) m')"

definition NewFromArray :: "val list \<Rightarrow> val list \<Rightarrow> bool list \<Rightarrow> fault + gmap" where
  "NewFromArray keys values unsafe =
     bind (NewFromArray_loop keys values 0 make_map)
       (\<lambda>m. Inr \<lparr>mu = rwmutex_New unsafe, data = m\<rparr>)"

subsection \<open>Single items\<close>

definition Set :: "val \<Rightarrow> val \<Rightarrow> gmap \<Rightarrow> fault + gmap" where
  "Set k v m = bind (mapassign (data m) k v) (\<lambda>d. Inr (m\<lparr>data := d\<rparr>))"

definition Search :: "val \<Rightarrow> gmap \<Rightarrow> fault + (val \<times> bool)" where
  "Search k m =
     bind (mapaccess (data m) k)
       (\<lambda>r. case r of None \<Rightarrow> Inr (nil, False) | Some v \<Rightarrow> Inr (v, True))"

definition Get :: "val \<Rightarrow> gmap \<Rightarrow> fault + val" where
  "Get k m =
     bind (mapaccess (data m) k)
       (\<lambda>r. case r of None \<Rightarrow> Inr nil | Some v \<Rightarrow> Inr v)"

definition Contains :: "val \<Rightarrow> gmap \<Rightarrow> fault + bool" where
  "Contains k m =
     bind (mapaccess (data m) k)
       (\<lambda>r. case r of None \<Rightarrow> Inr False | Some _ \<Rightarrow> Inr True)"

definition Remove :: "val \<Rightarrow> gmap \<Rightarrow> fault + (val \<times> gmap)" where
  "Remove k m =
     bind (mapaccess (data m) k)
       (\<lambda>r. case r of
          None \<Rightarrow> Inr (nil, m)
        | Some v \<Rightarrow> bind (mapdelete (data m) k) (\<lambda>d. Inr (v, m\<lparr>data := d\<rparr>)))"

definition Size :: "gmap \<Rightarrow> nat" where
  "Size m = len (data m)"

definition IsEmpty :: "gmap \<Rightarrow> bool" where
  "IsEmpty m \<longleftrightarrow> len (data m) = 0"

definition Clear :: "gmap \<Rightarrow> gmap" where
  "Clear m = m\<lparr>data := make_map\<rparr>"

subsection \<open>Batches and whole-map operations\<close>

text \<open>
  An order of iteration is chosen by the run time each time a loop starts: a method with
  a \<^verbatim>\<open>range\<close> loop over a map takes the choice as a parameter \<open>ord\<close>, and the loop
  visits \<open>ord d\<close>. \<open>range_assign\<close> is the loop \<^verbatim>\<open>for k, v := range ... { d[k] = v }\<close> of
  \<^verbatim>\<open>Sets\<close> and \<^verbatim>\<open>Merge\<close>; its first assignment panics when the receiver's map is nil.
\<close>

type_synonym order = "go_map \<Rightarrow> (val \<times> val) list"

fun range_assign :: "(val \<times> val) list \<Rightarrow> go_map \<Rightarrow> fault + go_map" where
  "range_assign [] d = Inr d"
| "range_assign ((k, v) # es) d = bind (mapassign d k v) (range_assign es)"

definition Sets :: "order \<Rightarrow> go_map \<Rightarrow> gmap \<Rightarrow> fault + gmap" where
  "Sets ord d m = bind (range_assign (ord d) (data m)) (\<lambda>d'. Inr (m\<lparr>data := d'\<rparr>))"

fun Removes_loop :: "val list \<Rightarrow> go_map \<Rightarrow> fault + go_map" where
  "Removes_loop [] d = Inr d"
| "Removes_loop (key # keys) d = bind (mapdelete d key) (Removes_loop keys)"

definition Removes :: "val list \<Rightarrow> gmap \<Rightarrow> fault + gmap" where
  "Removes keys m = bind (Removes_loop keys (data m)) (\<lambda>d. Inr (m\<lparr>data := d\<rparr>))"

text \<open>
  \<^verbatim>\<open>Flip\<close> fills a new map \<open>n\<close> with \<^verbatim>\<open>n[v] = k\<close> and installs it when the loop is
  over; a value that cannot be hashed stops the loop with the panic, and \<^verbatim>\<open>m.data\<close> is
  not replaced.
\<close>

fun Flip_loop :: "(val \<times> val) list \<Rightarrow> go_map \<Rightarrow> fault + go_map" where
  "Flip_loop [] n = Inr n"
| "Flip_loop ((k, v) # es) n = bind (mapassign n v k) (Flip_loop es)"

definition Flip :: "order \<Rightarrow> gmap \<Rightarrow> fault + gmap" where
  "Flip ord m = bind (Flip_loop (ord (data m)) make_map) (\<lambda>n. Inr (m\<lparr>data := n\<rparr>))"

text \<open>
  \<^verbatim>\<open>Merge\<close> compares \<^verbatim>\<open>other\<close> with the receiver only to decide whether to take the
  second lock; the loop is the same in both cases. The loop visits the entries that the
  map of \<^verbatim>\<open>other\<close> has when it starts. That is the loop of the code when the map of
  \<^verbatim>\<open>other\<close> is another map than the receiver's, and when it is the same map with no
  NaN key, whose entries the loop writes back as they are; a loop that ranges over the map
  it writes NaN keys to is left out. The same holds for the argument of \<^verbatim>\<open>Sets\<close>.
\<close>

definition Merge :: "order \<Rightarrow> gmap \<Rightarrow> gmap \<Rightarrow> fault + gmap" where
  "Merge ord other m =
     bind (range_assign (ord (data other)) (data m)) (\<lambda>d'. Inr (m\<lparr>data := d'\<rparr>))"

subsection \<open>Function values and the compound operations\<close>

text \<open>
  A function value is a reference \<open>fid\<close> to a closure of the program; \<open>call f\<close> is what
  calling it does. A closure may reach the map through its methods (when no lock is held,
  or in the unsafe mode) and anything else of the program, the \<open>world\<close>; \<open>None\<close> is a
  call that does not return. The state of the program is the receiver, the world, and
  the list of function values that the map's own code has called so far.
\<close>

type_synonym 'w closure = "go_map \<times> 'w \<Rightarrow> (val \<times> go_map \<times> 'w) option"

record 'w state =
  recv :: gmap
  world :: 'w
  invoked :: "fid list"

definition invoke :: "(fid \<Rightarrow> 'w closure) \<Rightarrow> fid \<Rightarrow> 'w state \<Rightarrow> fault + (val \<times> 'w state)" where
  "invoke call f s =
     (case call f (data (recv s), world s) of
        None \<Rightarrow> Inl Aborted
      | Some (r, d, w) \<Rightarrow>
          Inr (r, \<lparr>recv = (recv s)\<lparr>data := d\<rparr>, world = w, invoked = invoked s @ [f]\<rparr>))"

definition doSetWithLockCheck ::
  "(fid \<Rightarrow> 'w closure) \<Rightarrow> val \<Rightarrow> val \<Rightarrow> 'w state \<Rightarrow> fault + (val \<times> 'w state)" where
  "doSetWithLockCheck call key value s =
     bind (mapaccess (data (recv s)) key)
       (\<lambda>r. case r of
          Some v \<Rightarrow> Inr (v, s)
        | None \<Rightarrow>
            bind (case value of Func f \<Rightarrow> invoke call f s | _ \<Rightarrow> Inr (value, s))
              (\<lambda>(value', s').
                 bind (mapassign (data (recv s')) key value')
                   (\<lambda>d. Inr (value', s'\<lparr>recv := (recv s')\<lparr>data := d\<rparr>\<rparr>))))"

text \<open>
  The methods below read the map in one locked section (\<^verbatim>\<open>Search\<close> or \<^verbatim>\<open>Contains\<close>)
  and write it in another (\<^verbatim>\<open>doSetWithLockCheck\<close>). \<open>env\<close> is what the other goroutines
  do in between; a program with one goroutine has \<open>env = (\<lambda>s. s)\<close>. The variants
  that call \<open>f\<close> before they take the lock have a second gap, after the call.
\<close>

definition GetOrSet ::
  "(fid \<Rightarrow> 'w closure) \<Rightarrow> ('w state \<Rightarrow> 'w state) \<Rightarrow> val \<Rightarrow> val \<Rightarrow> 'w state
     \<Rightarrow> fault + (val \<times> 'w state)" where
  "GetOrSet call env key value s =
     bind (Search key (recv s))
       (\<lambda>(v, ok). if \<not> ok then doSetWithLockCheck call key value (env s) else Inr (v, s))"

definition GetOrSetFunc ::
  "(fid \<Rightarrow> 'w closure) \<Rightarrow> ('w state \<Rightarrow> 'w state) \<Rightarrow> ('w state \<Rightarrow> 'w state) \<Rightarrow> val \<Rightarrow> fid
     \<Rightarrow> 'w state \<Rightarrow> fault + (val \<times> 'w state)" where
  "GetOrSetFunc call env env' key f s =
     bind (Search key (recv s))
       (\<lambda>(v, ok). if \<not> ok
          then bind (invoke call f (env s))
                 (\<lambda>(r, s'). doSetWithLockCheck call key r (env' s'))
          else Inr (v, s))"

definition GetOrSetFuncLock ::
  "(fid \<Rightarrow> 'w closure) \<Rightarrow> ('w state \<Rightarrow> 'w state) \<Rightarrow> val \<Rightarrow> fid \<Rightarrow> 'w state
     \<Rightarrow> fault + (val \<times> 'w state)" where
  "GetOrSetFuncLock call env key f s =
     bind (Search key (recv s))
       (\<lambda>(v, ok). if \<not> ok then doSetWithLockCheck call key (Func f) (env s) else Inr (v, s))"

definition SetIfNotExist ::
  "(fid \<Rightarrow> 'w closure) \<Rightarrow> ('w state \<Rightarrow> 'w state) \<Rightarrow> val \<Rightarrow> val \<Rightarrow> 'w state
     \<Rightarrow> fault + (bool \<times> 'w state)" where
  "SetIfNotExist call env key value s =
     bind (Contains key (recv s))
       (\<lambda>ok. if \<not> ok
          then bind (doSetWithLockCheck call key value (env s)) (\<lambda>(_, s'). Inr (True, s'))
          else Inr (False, s))"

definition SetIfNotExistFunc ::
  "(fid \<Rightarrow> 'w closure) \<Rightarrow> ('w state \<Rightarrow> 'w state) \<Rightarrow> ('w state \<Rightarrow> 'w state) \<Rightarrow> val \<Rightarrow> fid
     \<Rightarrow> 'w state \<Rightarrow> fault + (bool \<times> 'w state)" where
  "SetIfNotExistFunc call env env' key f s =
     bind (Contains key (recv s))
       (\<lambda>ok. if \<not> ok
          then bind (invoke call f (env s))
                 (\<lambda>(r, s'). bind (doSetWithLockCheck call key r (env' s'))
                    (\<lambda>(_, s''). Inr (True, s'')))
          else Inr (False, s))"

definition SetIfNotExistFuncLock ::
  "(fid \<Rightarrow> 'w closure) \<Rightarrow> ('w state \<Rightarrow> 'w state) \<Rightarrow> val \<Rightarrow> fid \<Rightarrow> 'w state
     \<Rightarrow> fault + (bool \<times> 'w state)" where
  "SetIfNotExistFuncLock call env key f s =
     bind (Contains key (recv s))
       (\<lambda>ok. if \<not> ok
          then bind (doSetWithLockCheck call key (Func f) (env s)) (\<lambda>(_, s'). Inr (True, s'))
          else Inr (False, s))"

subsection \<open>Programs that call the methods one after the other\<close>

text \<open>
  A map is made by one of the three constructors and then used by one goroutine, which
  calls methods on it and drops their results. The operations are the methods that write
  the map; those with a \<^verbatim>\<open>range\<close> loop carry the order the run time chooses for it, and
  \<^verbatim>\<open>Merge\<close> takes another map than the receiver. A program stops at the first panic.
\<close>

datatype ctor = ByNew | ByNewFrom go_map | ByNewFromArray "val list" "val list"

fun construct :: "ctor \<Rightarrow> bool list \<Rightarrow> fault + gmap" where
  "construct ByNew unsafe = Inr (New unsafe)"
| "construct (ByNewFrom d) unsafe = Inr (NewFrom d unsafe)"
| "construct (ByNewFromArray keys values) unsafe = NewFromArray keys values unsafe"

datatype op =
    DoSet val val
  | DoSets order go_map
  | DoGetOrSet val val
  | DoGetOrSetFunc val fid
  | DoGetOrSetFuncLock val fid
  | DoSetIfNotExist val val
  | DoSetIfNotExistFunc val fid
  | DoSetIfNotExistFuncLock val fid
  | DoRemove val
  | DoRemoves "val list"
  | DoClear
  | DoFlip order
  | DoMerge order gmap

fun exec :: "(fid \<Rightarrow> 'w closure) \<Rightarrow> op \<Rightarrow> 'w state \<Rightarrow> fault + 'w state" where
  "exec call (DoSet key v) s = bind (Set key v (recv s)) (\<lambda>m. Inr (s\<lparr>recv := m\<rparr>))"
| "exec call (DoSets ord d) s = bind (Sets ord d (recv s)) (\<lambda>m. Inr (s\<lparr>recv := m\<rparr>))"
| "exec call (DoGetOrSet key v) s =
     bind (GetOrSet call (\<lambda>s. s) key v s) (\<lambda>(_, s'). Inr s')"
| "exec call (DoGetOrSetFunc key f) s =
     bind (GetOrSetFunc call (\<lambda>s. s) (\<lambda>s. s) key f s) (\<lambda>(_, s'). Inr s')"
| "exec call (DoGetOrSetFuncLock key f) s =
     bind (GetOrSetFuncLock call (\<lambda>s. s) key f s) (\<lambda>(_, s'). Inr s')"
| "exec call (DoSetIfNotExist key v) s =
     bind (SetIfNotExist call (\<lambda>s. s) key v s) (\<lambda>(_, s'). Inr s')"
| "exec call (DoSetIfNotExistFunc key f) s =
     bind (SetIfNotExistFunc call (\<lambda>s. s) (\<lambda>s. s) key f s) (\<lambda>(_, s'). Inr s')"
| "exec call (DoSetIfNotExistFuncLock key f) s =
     bind (SetIfNotExistFuncLock call (\<lambda>s. s) key f s) (\<lambda>(_, s'). Inr s')"
| "exec call (DoRemove key) s = bind (Remove key (recv s)) (\<lambda>(_, m). Inr (s\<lparr>recv := m\<rparr>))"
| "exec call (DoRemoves keys) s = bind (Removes keys (recv s)) (\<lambda>m. Inr (s\<lparr>recv := m\<rparr>))"
| "exec call DoClear s = Inr (s\<lparr>recv := Clear (recv s)\<rparr>)"
| "exec call (DoFlip ord) s = bind (Flip ord (recv s)) (\<lambda>m. Inr (s\<lparr>recv := m\<rparr>))"
| "exec call (DoMerge ord other) s =
     bind (Merge ord other (recv s)) (\<lambda>m. Inr (s\<lparr>recv := m\<rparr>))"

fun run :: "(fid \<Rightarrow> 'w closure) \<Rightarrow> op list \<Rightarrow> 'w state \<Rightarrow> fault + 'w state" where
  "run call [] s = Inr s"
| "run call (x # xs) s = bind (exec call x s) (run call xs)"

text \<open>\<open>trace\<close> lists the operations that were started, each with the state it started in.\<close>

fun trace :: "(fid \<Rightarrow> 'w closure) \<Rightarrow> op list \<Rightarrow> 'w state \<Rightarrow> ('w state \<times> op) list" where
  "trace call [] s = []"
| "trace call (x # xs) s =
     (s, x) # (case exec call x s of Inl _ \<Rightarrow> [] | Inr s' \<Rightarrow> trace call xs s')"

text \<open>
  \<open>map_pure call\<close>: no function value of the program changes the map when it is called
  (it does not call back into the methods of the map).
\<close>

definition map_pure :: "(fid \<Rightarrow> 'w closure) \<Rightarrow> bool" where
  "map_pure call \<longleftrightarrow> (\<forall>f d w r d' w'. call f (d, w) = Some (r, d', w') \<longrightarrow> d' = d)"

subsection \<open>The history of a key, in the words of the specification\<close>

text \<open>
  The specification says when a key is in the map: some operation stored a value under it,
  and no later operation removed it. The keys here are those that equal themselves.
  \<open>stores_listed\<close> is the list of operations that the specification counts as storing
  (\<^verbatim>\<open>Set\<close>, \<^verbatim>\<open>Sets\<close>, the \<^verbatim>\<open>GetOrSet\<close> and \<^verbatim>\<open>SetIfNotExist\<close> families when they do not
  find the key, \<^verbatim>\<open>Merge\<close>), and \<open>ctor_stores\<close> the same for the constructors; \<open>stores\<close>
  counts \<^verbatim>\<open>Flip\<close> too, which stores under every value it visits. \<open>removes\<close> is the list of
  operations that take a key away: \<^verbatim>\<open>Remove\<close>, \<^verbatim>\<open>Removes\<close>, \<^verbatim>\<open>Clear\<close>, and \<^verbatim>\<open>Flip\<close>,
  which replaces the map.
\<close>

fun ctor_stores :: "ctor \<Rightarrow> key \<Rightarrow> bool" where
  "ctor_stores ByNew k \<longleftrightarrow> False"
| "ctor_stores (ByNewFrom d) k \<longleftrightarrow> fmlookup (elems d) k \<noteq> None"
| "ctor_stores (ByNewFromArray keys values) k \<longleftrightarrow> Cmp k \<in> set keys"

fun stores_listed :: "op \<Rightarrow> 'w state \<Rightarrow> key \<Rightarrow> bool" where
  "stores_listed (DoSet key v) s k \<longleftrightarrow> key = Cmp k"
| "stores_listed (DoSets ord d) s k \<longleftrightarrow> Cmp k \<in> fst ` set (ord d)"
| "stores_listed (DoGetOrSet key v) s k \<longleftrightarrow>
     key = Cmp k \<and> fmlookup (elems (data (recv s))) k = None"
| "stores_listed (DoGetOrSetFunc key f) s k \<longleftrightarrow>
     key = Cmp k \<and> fmlookup (elems (data (recv s))) k = None"
| "stores_listed (DoGetOrSetFuncLock key f) s k \<longleftrightarrow>
     key = Cmp k \<and> fmlookup (elems (data (recv s))) k = None"
| "stores_listed (DoSetIfNotExist key v) s k \<longleftrightarrow>
     key = Cmp k \<and> fmlookup (elems (data (recv s))) k = None"
| "stores_listed (DoSetIfNotExistFunc key f) s k \<longleftrightarrow>
     key = Cmp k \<and> fmlookup (elems (data (recv s))) k = None"
| "stores_listed (DoSetIfNotExistFuncLock key f) s k \<longleftrightarrow>
     key = Cmp k \<and> fmlookup (elems (data (recv s))) k = None"
| "stores_listed (DoMerge ord other) s k \<longleftrightarrow> Cmp k \<in> fst ` set (ord (data other))"
| "stores_listed _ s k \<longleftrightarrow> False"

fun stores :: "op \<Rightarrow> 'w state \<Rightarrow> key \<Rightarrow> bool" where
  "stores (DoFlip ord) s k \<longleftrightarrow> Cmp k \<in> snd ` set (ord (data (recv s)))"
| "stores x s k \<longleftrightarrow> stores_listed x s k"

fun removes :: "op \<Rightarrow> key \<Rightarrow> bool" where
  "removes (DoRemove key) k \<longleftrightarrow> key = Cmp k"
| "removes (DoRemoves keys) k \<longleftrightarrow> Cmp k \<in> set keys"
| "removes (DoFlip ord) k \<longleftrightarrow> True"
| "removes DoClear k \<longleftrightarrow> True"
| "removes _ k \<longleftrightarrow> False"

text \<open>
  \<open>stored_and_kept st tr k\<close>: some operation of the trace stored under \<open>k\<close>, by the
  reading \<open>st\<close> of "stored", and none after it removed \<open>k\<close>. \<open>present_by_history\<close>
  adds the entries that the constructor stored.
\<close>

fun stored_and_kept ::
  "(op \<Rightarrow> 'w state \<Rightarrow> key \<Rightarrow> bool) \<Rightarrow> ('w state \<times> op) list \<Rightarrow> key \<Rightarrow> bool" where
  "stored_and_kept st [] k \<longleftrightarrow> False"
| "stored_and_kept st ((s, x) # tr) k \<longleftrightarrow>
     st x s k \<and> list_all (\<lambda>(s', x'). \<not> removes x' k) tr \<or> stored_and_kept st tr k"

definition present_by_history ::
  "(op \<Rightarrow> 'w state \<Rightarrow> key \<Rightarrow> bool) \<Rightarrow> ctor \<Rightarrow> ('w state \<times> op) list \<Rightarrow> key \<Rightarrow> bool" where
  "present_by_history st c tr k \<longleftrightarrow>
     ctor_stores c k \<and> list_all (\<lambda>(s', x'). \<not> removes x' k) tr \<or> stored_and_kept st tr k"

subsection \<open>Programs and maps to run the methods on\<close>

text \<open>
  Two programs to run the methods in: \<open>returning r\<close>, where every function value returns
  \<open>r\<close> and touches nothing, and a receiver that is alone in its program.
\<close>

definition returning :: "val \<Rightarrow> fid \<Rightarrow> unit closure" where
  "returning r f = (\<lambda>(d, w). Some (r, d, w))"

definition alone :: "gmap \<Rightarrow> unit state" where
  "alone m = \<lparr>recv = m, world = (), invoked = []\<rparr>"

text \<open>
  \<open>racer k v\<close> is another goroutine that stores \<open>v\<close> under \<open>k\<close> in the gap, in a map
  that is made.
\<close>

definition racer :: "key \<Rightarrow> val \<Rightarrow> 'w state \<Rightarrow> 'w state" where
  "racer k v s =
     s\<lparr>recv := (recv s)\<lparr>data := Made (fmupd k v (elems (data (recv s)))) (nans (data (recv s)))\<rparr>\<rparr>"

text \<open>\<open>listed es\<close> is the run time that visits the entries in the order of \<open>es\<close>.\<close>

definition listed :: "(val \<times> val) list \<Rightarrow> order" where
  "listed es d = es"

text \<open>\<open>of_list kvs\<close> is the made map with the entries \<open>kvs\<close> and no NaN key.\<close>

definition of_list :: "(key \<times> val) list \<Rightarrow> go_map" where
  "of_list kvs = Made (fmap_of_list kvs) {#}"

text \<open>
  The two conditions on the values of a map under which \<^verbatim>\<open>Flip\<close> can be undone: every
  value can be a key, and no value that equals itself is the value of two entries (NaN
  values never equal each other).
\<close>

definition values_hashable :: "go_map \<Rightarrow> bool" where
  "values_hashable d \<longleftrightarrow>
     (\<forall>k v. fmlookup (elems d) k = Some v \<longrightarrow> hashable v) \<and> (\<forall>v. v \<in># nans d \<longrightarrow> hashable v)"

definition values_distinct :: "go_map \<Rightarrow> bool" where
  "values_distinct d \<longleftrightarrow>
     (\<forall>k k' c. fmlookup (elems d) k = Some (Cmp c) \<and> fmlookup (elems d) k' = Some (Cmp c)
        \<longrightarrow> k = k')
     \<and> (\<forall>k c. fmlookup (elems d) k = Some (Cmp c) \<longrightarrow> Cmp c \<notin># nans d)
     \<and> (\<forall>c. count (nans d) (Cmp c) \<le> 1)"

section \<open>Properties\<close>

subsection \<open>Single items and the compound operations\<close>

lemma bind_Inr [simp]: "bind (Inr x) f = f x"
  by (simp add: bind_def)

lemma bind_Inl [simp]: "bind (Inl e) f = Inl e"
  by (simp add: bind_def)

lemma bind_eq_Inr: "bind r f = Inr y \<longleftrightarrow> (\<exists>x. r = Inr x \<and> f x = Inr y)"
  by (cases r) simp_all

lemma Search_Cmp:
  "Search (Cmp k) m
     = Inr (case fmlookup (elems (data m)) k of None \<Rightarrow> (nil, False) | Some v \<Rightarrow> (v, True))"
  by (simp add: Search_def split: option.split)

lemma Search_NaN: "Search NaN m = Inr (nil, False)"
  by (simp add: Search_def)

lemma Contains_Cmp: "Contains (Cmp k) m = Inr (fmlookup (elems (data m)) k \<noteq> None)"
  by (simp add: Contains_def split: option.split)

lemma Contains_NaN: "Contains NaN m = Inr False"
  by (simp add: Contains_def)

lemma doSetWithLockCheck_present:
  "fmlookup (elems (data (recv s))) k = Some v0 \<Longrightarrow>
   doSetWithLockCheck call (Cmp k) v s = Inr (v0, s)"
  by (simp add: doSetWithLockCheck_def)

lemma doSetWithLockCheck_plain:
  "mapaccess (data (recv s)) key = Inr None \<Longrightarrow> \<forall>f. v \<noteq> Func f \<Longrightarrow>
   doSetWithLockCheck call key v s
     = bind (mapassign (data (recv s)) key v) (\<lambda>d. Inr (v, s\<lparr>recv := (recv s)\<lparr>data := d\<rparr>\<rparr>))"
  by (cases v) (simp_all add: doSetWithLockCheck_def)

lemma doSetWithLockCheck_Func:
  "mapaccess (data (recv s)) key = Inr None \<Longrightarrow>
   doSetWithLockCheck call key (Func f) s
     = (case call f (data (recv s), world s) of
          None \<Rightarrow> Inl Aborted
        | Some (r, d, w) \<Rightarrow>
            bind (mapassign d key r)
              (\<lambda>d'. Inr (r, \<lparr>recv = (recv s)\<lparr>data := d'\<rparr>, world = w,
                             invoked = invoked s @ [f]\<rparr>)))"
  by (simp add: doSetWithLockCheck_def invoke_def split: option.split)

text \<open>
  C7. \<^verbatim>\<open>Remove(k)\<close> returns the value that was stored under \<open>k\<close>, or nil when there was
  none. Afterwards \<open>k\<close> is not in the map and every other entry, those under NaN keys
  too, is as it was; when \<open>k\<close> was not in the map, the map is the one before the call.
  A NaN key is never found: \<^verbatim>\<open>Remove\<close> returns nil and leaves the map as it was. A nil
  map is read and not written, so nothing panics there.
\<close>

theorem Remove_returns_old_value_and_deletes:
  "\<exists>m'. Remove (Cmp k) m =
          Inr (case fmlookup (elems (data m)) k of None \<Rightarrow> nil | Some v \<Rightarrow> v, m')
     \<and> Contains (Cmp k) m' = Inr False
     \<and> (\<forall>k'. k' \<noteq> k \<longrightarrow> fmlookup (elems (data m')) k' = fmlookup (elems (data m)) k')
     \<and> nans (data m') = nans (data m)
     \<and> mu m' = mu m
     \<and> (fmlookup (elems (data m)) k = None \<longrightarrow> m' = m)
     \<and> Remove NaN m = Inr (nil, m)"
  by (cases "data m"; cases "fmlookup (elems (data m)) k")
    (simp_all add: Remove_def Contains_def)

theorem Remove_returns_old_value_and_deletes_witness:
  "Remove (Cmp (KInt 1)) (NewFrom (of_list [(KInt 1, Cmp (KInt 10)), (KInt 2, Func 0)]) [])
     = Inr (Cmp (KInt 10), NewFrom (of_list [(KInt 2, Func 0)]) [])
   \<and> Remove (Cmp (KInt 1)) (NewFrom Nil_map []) = Inr (nil, NewFrom Nil_map [])"
  using Remove_returns_old_value_and_deletes
    [of "KInt 1" "NewFrom (of_list [(KInt 1, Cmp (KInt 10)), (KInt 2, Func 0)]) []"]
    Remove_returns_old_value_and_deletes [of "KInt 1" "NewFrom Nil_map []"]
  by (simp add: Remove_def NewFrom_def of_list_def fmdrop_fmupd)

text \<open>
  C10. \<^verbatim>\<open>Get(k)\<close> is nil for a key that is not in the map, as it is for a key stored with
  the value nil: \<^verbatim>\<open>Get\<close> does not tell the two apart. \<^verbatim>\<open>Search(k)\<close> does: its second
  result is false exactly when \<open>k\<close> is not in the map. A NaN key is never in the map for
  the two of them.
\<close>

theorem Get_absent_is_nil_Search_tells:
  "(fmlookup (elems (data m)) k = None \<longrightarrow>
      Get (Cmp k) m = Inr nil \<and> Search (Cmp k) m = Inr (nil, False))
   \<and> (fmlookup (elems (data m)) k = Some nil \<longrightarrow>
      Get (Cmp k) m = Inr nil \<and> Search (Cmp k) m = Inr (nil, True))
   \<and> (\<exists>v. Search (Cmp k) m = Inr (v, fmlookup (elems (data m)) k \<noteq> None))
   \<and> Get NaN m = Inr nil \<and> Search NaN m = Inr (nil, False)"
  by (cases "fmlookup (elems (data m)) k") (simp_all add: Get_def Search_def)

theorem Get_absent_is_nil_Search_tells_witness:
  "Get (Cmp (KInt 1)) (New []) = Inr nil
   \<and> Search (Cmp (KInt 1)) (New []) = Inr (nil, False)
   \<and> Set (Cmp (KInt 1)) nil (New []) = Inr (NewFrom (of_list [(KInt 1, nil)]) [])
   \<and> Get (Cmp (KInt 1)) (NewFrom (of_list [(KInt 1, nil)]) []) = Inr nil
   \<and> Search (Cmp (KInt 1)) (NewFrom (of_list [(KInt 1, nil)]) []) = Inr (nil, True)
   \<and> Get (Cmp (KInt 1)) (NewFrom Nil_map []) = Inr nil
   \<and> Search (Cmp (KInt 1)) (NewFrom Nil_map []) = Inr (nil, False)"
  using Get_absent_is_nil_Search_tells [of "New []" "KInt 1"]
    Get_absent_is_nil_Search_tells [of "NewFrom (of_list [(KInt 1, nil)]) []" "KInt 1"]
    Get_absent_is_nil_Search_tells [of "NewFrom Nil_map []" "KInt 1"]
  by (simp add: New_def NewFrom_def Set_def of_list_def make_map_def)

text \<open>
  C1, as the code has it. When \<open>k\<close> is in the map with the value \<open>v0\<close>, \<^verbatim>\<open>GetOrSet(k, v)\<close>
  returns \<open>v0\<close> and the state is as it was. When \<^verbatim>\<open>Search\<close> does not find \<open>k\<close>, the
  other goroutines take the state to \<open>env s\<close> before the write lock is taken. If \<open>k\<close> is
  in the map there, its value is returned and nothing is stored. If it is not, and \<open>v\<close> is
  not a function value of type \<^verbatim>\<open>func() interface{}\<close>: on a map that is made, \<open>v\<close> is
  stored under \<open>k\<close> and returned; on the nil map (of \<^verbatim>\<open>NewFrom(nil)\<close>) the store
  panics. A NaN key is never found, and \<open>v\<close> is stored as one more entry under it. A key
  that cannot be hashed makes \<^verbatim>\<open>Search\<close> panic.
\<close>

theorem GetOrSet_plain_value:
  "(fmlookup (elems (data (recv s))) k = Some v0 \<longrightarrow>
      GetOrSet call env (Cmp k) v s = Inr (v0, s))
   \<and> (fmlookup (elems (data (recv s))) k = None
        \<and> fmlookup (elems (data (recv (env s)))) k = Some v1 \<longrightarrow>
      GetOrSet call env (Cmp k) v s = Inr (v1, env s))
   \<and> (fmlookup (elems (data (recv s))) k = None
        \<and> fmlookup (elems (data (recv (env s)))) k = None
        \<and> (\<forall>f. v \<noteq> Func f) \<and> data (recv (env s)) = Made e n \<longrightarrow>
      GetOrSet call env (Cmp k) v s
        = Inr (v, (env s)\<lparr>recv := (recv (env s))\<lparr>data := Made (fmupd k v e) n\<rparr>\<rparr>))
   \<and> (fmlookup (elems (data (recv s))) k = None
        \<and> (\<forall>f. v \<noteq> Func f) \<and> data (recv (env s)) = Nil_map \<longrightarrow>
      GetOrSet call env (Cmp k) v s = Inl NilMap)
   \<and> ((\<forall>f. v \<noteq> Func f) \<and> data (recv (env s)) = Made e n \<longrightarrow>
      GetOrSet call env NaN v s
        = Inr (v, (env s)\<lparr>recv := (recv (env s))\<lparr>data := Made e (add_mset v n)\<rparr>\<rparr>))
   \<and> (\<not> hashable key \<longrightarrow> GetOrSet call env key v s = Inl Unhashable)"
proof (intro conjI impI; (elim conjE)?)
  assume "fmlookup (elems (data (recv s))) k = Some v0"
  then show "GetOrSet call env (Cmp k) v s = Inr (v0, s)"
    by (simp add: GetOrSet_def Search_Cmp)
next
  assume "fmlookup (elems (data (recv s))) k = None"
    "fmlookup (elems (data (recv (env s)))) k = Some v1"
  then show "GetOrSet call env (Cmp k) v s = Inr (v1, env s)"
    by (simp add: GetOrSet_def Search_Cmp doSetWithLockCheck_present)
next
  assume "fmlookup (elems (data (recv s))) k = None"
    "fmlookup (elems (data (recv (env s)))) k = None" "\<forall>f. v \<noteq> Func f"
    "data (recv (env s)) = Made e n"
  then show "GetOrSet call env (Cmp k) v s
      = Inr (v, (env s)\<lparr>recv := (recv (env s))\<lparr>data := Made (fmupd k v e) n\<rparr>\<rparr>)"
    by (simp add: GetOrSet_def Search_Cmp doSetWithLockCheck_plain)
next
  assume "fmlookup (elems (data (recv s))) k = None" "\<forall>f. v \<noteq> Func f"
    "data (recv (env s)) = Nil_map"
  then show "GetOrSet call env (Cmp k) v s = Inl NilMap"
    by (simp add: GetOrSet_def Search_Cmp doSetWithLockCheck_plain)
next
  assume "\<forall>f. v \<noteq> Func f" "data (recv (env s)) = Made e n"
  then show "GetOrSet call env NaN v s
      = Inr (v, (env s)\<lparr>recv := (recv (env s))\<lparr>data := Made e (add_mset v n)\<rparr>\<rparr>)"
    by (simp add: GetOrSet_def Search_NaN doSetWithLockCheck_plain)
next
  assume "\<not> hashable key"
  then show "GetOrSet call env key v s = Inl Unhashable"
    by (cases key) (simp_all add: GetOrSet_def Search_def)
qed

theorem GetOrSet_plain_value_witness:
  "GetOrSet (returning nil) (\<lambda>s. s) (Cmp (KInt 1)) (Cmp (KInt 5))
       (alone (NewFrom (of_list [(KInt 1, Cmp (KInt 4))]) []))
     = Inr (Cmp (KInt 4), alone (NewFrom (of_list [(KInt 1, Cmp (KInt 4))]) []))
   \<and> GetOrSet (returning nil) (racer (KInt 1) (Cmp (KInt 9))) (Cmp (KInt 1)) (Cmp (KInt 5))
       (alone (New []))
     = Inr (Cmp (KInt 9), alone (NewFrom (of_list [(KInt 1, Cmp (KInt 9))]) []))
   \<and> GetOrSet (returning nil) (\<lambda>s. s) (Cmp (KInt 2)) (Other 0)
       (alone (NewFrom (of_list [(KInt 1, Cmp (KInt 4))]) []))
     = Inr (Other 0, alone (NewFrom (of_list [(KInt 2, Other 0), (KInt 1, Cmp (KInt 4))]) []))
   \<and> GetOrSet (returning nil) (\<lambda>s. s) (Cmp (KInt 1)) (Cmp (KInt 5)) (alone (NewFrom Nil_map []))
     = Inl NilMap
   \<and> GetOrSet (returning nil) (\<lambda>s. s) NaN (Cmp (KInt 5)) (alone (New []))
     = Inr (Cmp (KInt 5), alone (NewFrom (Made fmempty {#Cmp (KInt 5)#}) []))"
  using GetOrSet_plain_value [of "alone (NewFrom (of_list [(KInt 1, Cmp (KInt 4))]) [])"
      "KInt 1" "Cmp (KInt 4)" "returning nil" "\<lambda>s. s" "Cmp (KInt 5)" undefined undefined undefined]
    GetOrSet_plain_value [of "alone (New [])" "KInt 1" undefined "returning nil"
      "racer (KInt 1) (Cmp (KInt 9))" "Cmp (KInt 5)" "Cmp (KInt 9)" undefined undefined]
    GetOrSet_plain_value [of "alone (NewFrom (of_list [(KInt 1, Cmp (KInt 4))]) [])"
      "KInt 2" undefined "returning nil" "\<lambda>s. s" "Other 0" undefined
      "fmap_of_list [(KInt 1, Cmp (KInt 4))]" "{#}"]
    GetOrSet_plain_value [of "alone (NewFrom Nil_map [])" "KInt 1" undefined "returning nil"
      "\<lambda>s. s" "Cmp (KInt 5)" undefined undefined undefined]
    GetOrSet_plain_value [of "alone (New [])" "KInt 1" undefined "returning nil"
      "\<lambda>s. s" "Cmp (KInt 5)" undefined fmempty "{#}"]
  by (simp add: alone_def New_def NewFrom_def of_list_def make_map_def racer_def)

text \<open>
  The claim C1 says that \<^verbatim>\<open>GetOrSet\<close> stores and returns \<open>v\<close> for every value \<open>v\<close> and
  every map. For a function value it does not: on the empty map, with a function that
  returns 7, \<^verbatim>\<open>GetOrSet(1, f)\<close> stores 7 under 1 and returns 7. On the map of
  \<^verbatim>\<open>NewFrom(nil)\<close>, where 1 is absent, \<^verbatim>\<open>GetOrSet(1, 5)\<close> panics.
\<close>

theorem GetOrSet_function_value_counterexample:
  "fmlookup (elems (data (recv (alone (New []))))) (KInt 1) = None
   \<and> GetOrSet (returning (Cmp (KInt 7))) (\<lambda>s. s) (Cmp (KInt 1)) (Func 0) (alone (New []))
     = Inr (Cmp (KInt 7),
            \<lparr>recv = NewFrom (of_list [(KInt 1, Cmp (KInt 7))]) [], world = (), invoked = [0]\<rparr>)
   \<and> Cmp (KInt 7) \<noteq> Func 0
   \<and> fmlookup (elems (data (recv (alone (NewFrom Nil_map []))))) (KInt 1) = None
   \<and> GetOrSet (returning nil) (\<lambda>s. s) (Cmp (KInt 1)) (Cmp (KInt 5)) (alone (NewFrom Nil_map []))
     = Inl NilMap"
  by (simp add: GetOrSet_def Search_Cmp doSetWithLockCheck_Func doSetWithLockCheck_plain
      alone_def New_def NewFrom_def returning_def of_list_def make_map_def)

text \<open>
  C2, as the code has it. When \<open>k\<close> is not in the map, neither when \<^verbatim>\<open>Contains\<close> looks nor
  in the state \<open>env s\<close> in which the write lock is taken, and \<open>v\<close> is not a function
  value of type \<^verbatim>\<open>func() interface{}\<close>: on a map that is made, \<^verbatim>\<open>SetIfNotExist(k, v)\<close>
  stores \<open>v\<close> under \<open>k\<close> and returns true; on the nil map the store panics. When \<open>k\<close>
  is in the map it returns false and the state, so the value under \<open>k\<close> and every other
  entry, is as it was. A NaN key is never found, and \<open>v\<close> is stored as one more entry
  under it. A key that cannot be hashed makes \<^verbatim>\<open>Contains\<close> panic. The case where another
  goroutine stores under \<open>k\<close> between the two locked sections is left out here.
\<close>

theorem SetIfNotExist_plain_value:
  "(fmlookup (elems (data (recv s))) k = None
        \<and> fmlookup (elems (data (recv (env s)))) k = None
        \<and> (\<forall>f. v \<noteq> Func f) \<and> data (recv (env s)) = Made e n \<longrightarrow>
      SetIfNotExist call env (Cmp k) v s
        = Inr (True, (env s)\<lparr>recv := (recv (env s))\<lparr>data := Made (fmupd k v e) n\<rparr>\<rparr>))
   \<and> (fmlookup (elems (data (recv s))) k = Some v0 \<longrightarrow>
      SetIfNotExist call env (Cmp k) v s = Inr (False, s))
   \<and> (fmlookup (elems (data (recv s))) k = None
        \<and> (\<forall>f. v \<noteq> Func f) \<and> data (recv (env s)) = Nil_map \<longrightarrow>
      SetIfNotExist call env (Cmp k) v s = Inl NilMap)
   \<and> ((\<forall>f. v \<noteq> Func f) \<and> data (recv (env s)) = Made e n \<longrightarrow>
      SetIfNotExist call env NaN v s
        = Inr (True, (env s)\<lparr>recv := (recv (env s))\<lparr>data := Made e (add_mset v n)\<rparr>\<rparr>))
   \<and> (\<not> hashable key \<longrightarrow> SetIfNotExist call env key v s = Inl Unhashable)"
proof (intro conjI impI; (elim conjE)?)
  assume "fmlookup (elems (data (recv s))) k = None"
    "fmlookup (elems (data (recv (env s)))) k = None" "\<forall>f. v \<noteq> Func f"
    "data (recv (env s)) = Made e n"
  then show "SetIfNotExist call env (Cmp k) v s
      = Inr (True, (env s)\<lparr>recv := (recv (env s))\<lparr>data := Made (fmupd k v e) n\<rparr>\<rparr>)"
    by (simp add: SetIfNotExist_def Contains_Cmp doSetWithLockCheck_plain)
next
  assume "fmlookup (elems (data (recv s))) k = Some v0"
  then show "SetIfNotExist call env (Cmp k) v s = Inr (False, s)"
    by (simp add: SetIfNotExist_def Contains_Cmp)
next
  assume "fmlookup (elems (data (recv s))) k = None" "\<forall>f. v \<noteq> Func f"
    "data (recv (env s)) = Nil_map"
  then show "SetIfNotExist call env (Cmp k) v s = Inl NilMap"
    by (simp add: SetIfNotExist_def Contains_Cmp doSetWithLockCheck_plain)
next
  assume "\<forall>f. v \<noteq> Func f" "data (recv (env s)) = Made e n"
  then show "SetIfNotExist call env NaN v s
      = Inr (True, (env s)\<lparr>recv := (recv (env s))\<lparr>data := Made e (add_mset v n)\<rparr>\<rparr>)"
    by (simp add: SetIfNotExist_def Contains_NaN doSetWithLockCheck_plain)
next
  assume "\<not> hashable key"
  then show "SetIfNotExist call env key v s = Inl Unhashable"
    by (cases key) (simp_all add: SetIfNotExist_def Contains_def)
qed

theorem SetIfNotExist_plain_value_witness:
  "SetIfNotExist (returning nil) (\<lambda>s. s) (Cmp (KStr ''a'')) (Cmp (KInt 5)) (alone (New []))
     = Inr (True, alone (NewFrom (of_list [(KStr ''a'', Cmp (KInt 5))]) []))
   \<and> SetIfNotExist (returning nil) (\<lambda>s. s) (Cmp (KStr ''a'')) (Cmp (KInt 6))
       (alone (NewFrom (of_list [(KStr ''a'', Cmp (KInt 5))]) []))
     = Inr (False, alone (NewFrom (of_list [(KStr ''a'', Cmp (KInt 5))]) []))
   \<and> SetIfNotExist (returning nil) (\<lambda>s. s) (Cmp (KStr ''a'')) (Cmp (KInt 5))
       (alone (NewFrom Nil_map []))
     = Inl NilMap
   \<and> SetIfNotExist (returning nil) (\<lambda>s. s) NaN (Cmp (KInt 5)) (alone (New []))
     = Inr (True, alone (NewFrom (Made fmempty {#Cmp (KInt 5)#}) []))"
  using SetIfNotExist_plain_value [of "alone (New [])" "KStr ''a''" "\<lambda>s. s" "Cmp (KInt 5)"
      fmempty "{#}" "returning nil" undefined]
    SetIfNotExist_plain_value [of "alone (NewFrom (of_list [(KStr ''a'', Cmp (KInt 5))]) [])"
      "KStr ''a''" "\<lambda>s. s" "Cmp (KInt 6)" undefined undefined "returning nil" "Cmp (KInt 5)"]
    SetIfNotExist_plain_value [of "alone (NewFrom Nil_map [])" "KStr ''a''" "\<lambda>s. s"
      "Cmp (KInt 5)" undefined undefined "returning nil" undefined]
  by (simp add: alone_def New_def NewFrom_def of_list_def make_map_def)

text \<open>
  The claim C2 says that \<open>v\<close> is stored for every value \<open>v\<close> and every map. On the empty
  map, with a function that returns 7, \<^verbatim>\<open>SetIfNotExist(1, f)\<close> returns true and the value
  under 1 is 7, not \<open>f\<close>. On the map of \<^verbatim>\<open>NewFrom(nil)\<close>, where 1 is absent,
  \<^verbatim>\<open>SetIfNotExist(1, 5)\<close> panics.
\<close>

theorem SetIfNotExist_function_value_counterexample:
  "fmlookup (elems (data (recv (alone (New []))))) (KInt 1) = None
   \<and> SetIfNotExist (returning (Cmp (KInt 7))) (\<lambda>s. s) (Cmp (KInt 1)) (Func 0) (alone (New []))
     = Inr (True,
            \<lparr>recv = NewFrom (of_list [(KInt 1, Cmp (KInt 7))]) [], world = (), invoked = [0]\<rparr>)
   \<and> fmlookup (fmap_of_list [(KInt 1, Cmp (KInt 7))]) (KInt 1) \<noteq> Some (Func 0)
   \<and> fmlookup (elems (data (recv (alone (NewFrom Nil_map []))))) (KInt 1) = None
   \<and> SetIfNotExist (returning nil) (\<lambda>s. s) (Cmp (KInt 1)) (Cmp (KInt 5))
       (alone (NewFrom Nil_map []))
     = Inl NilMap"
  by (simp add: SetIfNotExist_def Contains_Cmp doSetWithLockCheck_Func doSetWithLockCheck_plain
      alone_def New_def NewFrom_def returning_def of_list_def make_map_def)

text \<open>
  C9, as the code has it. When \<open>k\<close> is not in the map, neither at the first look nor in
  the state \<open>env s\<close> in which the write lock is taken, and the value is a function value
  \<open>f\<close> of type \<^verbatim>\<open>func() interface{}\<close> whose call returns \<open>r\<close>, both \<^verbatim>\<open>GetOrSet(k, f)\<close>
  and \<^verbatim>\<open>SetIfNotExist(k, f)\<close> call \<open>f\<close> once, in that state. When the map that the call
  leaves is made, they store \<open>r\<close> under \<open>k\<close> in it; when it is nil, the store panics.
  Under a NaN key \<open>r\<close> is stored as one more entry, and a key that cannot be hashed
  makes the first look panic.
\<close>

theorem function_value_is_called_and_result_stored:
  "(fmlookup (elems (data (recv s))) k = None
      \<and> fmlookup (elems (data (recv (env s)))) k = None
      \<and> call f (data (recv (env s)), world (env s)) = Some (r, d, w) \<longrightarrow>
    (d = Made e n \<longrightarrow>
       GetOrSet call env (Cmp k) (Func f) s
         = Inr (r, \<lparr>recv = (recv (env s))\<lparr>data := Made (fmupd k r e) n\<rparr>, world = w,
                    invoked = invoked (env s) @ [f]\<rparr>)
       \<and> SetIfNotExist call env (Cmp k) (Func f) s
         = Inr (True, \<lparr>recv = (recv (env s))\<lparr>data := Made (fmupd k r e) n\<rparr>, world = w,
                       invoked = invoked (env s) @ [f]\<rparr>))
    \<and> (d = Nil_map \<longrightarrow>
       GetOrSet call env (Cmp k) (Func f) s = Inl NilMap
       \<and> SetIfNotExist call env (Cmp k) (Func f) s = Inl NilMap))
   \<and> (call f (data (recv (env s)), world (env s)) = Some (r, d, w) \<and> d = Made e n \<longrightarrow>
       GetOrSet call env NaN (Func f) s
         = Inr (r, \<lparr>recv = (recv (env s))\<lparr>data := Made e (add_mset r n)\<rparr>, world = w,
                    invoked = invoked (env s) @ [f]\<rparr>)
       \<and> SetIfNotExist call env NaN (Func f) s
         = Inr (True, \<lparr>recv = (recv (env s))\<lparr>data := Made e (add_mset r n)\<rparr>, world = w,
                       invoked = invoked (env s) @ [f]\<rparr>))
   \<and> (\<not> hashable key \<longrightarrow>
       GetOrSet call env key (Func f) s = Inl Unhashable
       \<and> SetIfNotExist call env key (Func f) s = Inl Unhashable)"
proof -
  have a: "fmlookup (elems (data (recv s))) k = None
      \<and> fmlookup (elems (data (recv (env s)))) k = None
      \<and> call f (data (recv (env s)), world (env s)) = Some (r, d, w) \<longrightarrow>
    (d = Made e n \<longrightarrow>
       GetOrSet call env (Cmp k) (Func f) s
         = Inr (r, \<lparr>recv = (recv (env s))\<lparr>data := Made (fmupd k r e) n\<rparr>, world = w,
                    invoked = invoked (env s) @ [f]\<rparr>)
       \<and> SetIfNotExist call env (Cmp k) (Func f) s
         = Inr (True, \<lparr>recv = (recv (env s))\<lparr>data := Made (fmupd k r e) n\<rparr>, world = w,
                       invoked = invoked (env s) @ [f]\<rparr>))
    \<and> (d = Nil_map \<longrightarrow>
       GetOrSet call env (Cmp k) (Func f) s = Inl NilMap
       \<and> SetIfNotExist call env (Cmp k) (Func f) s = Inl NilMap)"
    by (simp add: GetOrSet_def SetIfNotExist_def Search_Cmp Contains_Cmp doSetWithLockCheck_Func)
  have b: "call f (data (recv (env s)), world (env s)) = Some (r, d, w) \<and> d = Made e n \<longrightarrow>
       GetOrSet call env NaN (Func f) s
         = Inr (r, \<lparr>recv = (recv (env s))\<lparr>data := Made e (add_mset r n)\<rparr>, world = w,
                    invoked = invoked (env s) @ [f]\<rparr>)
       \<and> SetIfNotExist call env NaN (Func f) s
         = Inr (True, \<lparr>recv = (recv (env s))\<lparr>data := Made e (add_mset r n)\<rparr>, world = w,
                       invoked = invoked (env s) @ [f]\<rparr>)"
    by (simp add: GetOrSet_def SetIfNotExist_def Search_NaN Contains_NaN doSetWithLockCheck_Func)
  have c: "\<not> hashable key \<longrightarrow>
       GetOrSet call env key (Func f) s = Inl Unhashable
       \<and> SetIfNotExist call env key (Func f) s = Inl Unhashable"
    by (cases key) (simp_all add: GetOrSet_def SetIfNotExist_def Search_def Contains_def)
  from a b c show ?thesis
    by (intro conjI)
qed

theorem function_value_is_called_and_result_stored_witness:
  "GetOrSet (returning (Cmp (KStr ''made''))) (\<lambda>s. s) (Cmp (KInt 1)) (Func 3) (alone (New [True]))
     = Inr (Cmp (KStr ''made''),
         \<lparr>recv = NewFrom (of_list [(KInt 1, Cmp (KStr ''made''))]) [True], world = (),
           invoked = [3]\<rparr>)
   \<and> SetIfNotExist (returning (Cmp (KStr ''made''))) (\<lambda>s. s) (Cmp (KInt 1)) (Func 3)
       (alone (New [True]))
     = Inr (True,
         \<lparr>recv = NewFrom (of_list [(KInt 1, Cmp (KStr ''made''))]) [True], world = (),
           invoked = [3]\<rparr>)
   \<and> GetOrSet (returning (Cmp (KStr ''made''))) (\<lambda>s. s) (Cmp (KInt 1)) (Func 3)
       (alone (NewFrom Nil_map []))
     = Inl NilMap"
  using function_value_is_called_and_result_stored [of "alone (New [True])" "KInt 1" "\<lambda>s. s"
      "returning (Cmp (KStr ''made''))" 3 "Cmp (KStr ''made'')" make_map "()" fmempty "{#}"]
    function_value_is_called_and_result_stored [of "alone (NewFrom Nil_map [])" "KInt 1" "\<lambda>s. s"
      "returning (Cmp (KStr ''made''))" 3 "Cmp (KStr ''made'')" Nil_map "()" fmempty "{#}"]
  by (simp add: alone_def New_def NewFrom_def returning_def of_list_def make_map_def)

text \<open>
  The claim C9 adds that no function value can be stored this way. The result of the call
  is stored as it is: with a function that returns the function value 1, the value under
  the key is the function value 1.
\<close>

theorem function_value_stored_counterexample:
  "GetOrSet (returning (Func 1)) (\<lambda>s. s) (Cmp (KInt 1)) (Func 0) (alone (New []))
     = Inr (Func 1,
            \<lparr>recv = NewFrom (of_list [(KInt 1, Func 1)]) [], world = (), invoked = [0]\<rparr>)
   \<and> SetIfNotExist (returning (Func 1)) (\<lambda>s. s) (Cmp (KInt 1)) (Func 0) (alone (New []))
     = Inr (True,
            \<lparr>recv = NewFrom (of_list [(KInt 1, Func 1)]) [], world = (), invoked = [0]\<rparr>)
   \<and> fmlookup (fmap_of_list [(KInt 1, Func 1)]) (KInt 1) = Some (Func 1)"
  by (simp add: GetOrSet_def SetIfNotExist_def Search_Cmp Contains_Cmp doSetWithLockCheck_Func
      alone_def New_def NewFrom_def returning_def of_list_def make_map_def)

text \<open>
  C3. \<^verbatim>\<open>GetOrSetFuncLock(k, f)\<close>: when \<^verbatim>\<open>Search\<close> finds \<open>k\<close>, the value found is returned
  and nothing is called. When it does not, the state at the second check is \<open>env s\<close>: if
  \<open>k\<close> is in the map there, its value is returned and nothing is called; if it is not,
  \<open>f\<close> is called once in that state, and either the call does not return, or its result
  is stored and returned, or the map it leaves is nil and the store panics. The list
  \<open>invoked\<close> grows by \<open>f\<close>, once, when the call returns and in no other case. A key
  that cannot be hashed makes \<^verbatim>\<open>Search\<close> panic, before anything is called. A NaN key is
  absent at both checks, so \<open>f\<close> is called once.
\<close>

theorem GetOrSetFuncLock_calls_f_at_most_once:
  "(fmlookup (elems (data (recv s))) k = Some v \<longrightarrow>
      GetOrSetFuncLock call env (Cmp k) f s = Inr (v, s))
   \<and> (fmlookup (elems (data (recv s))) k = None
        \<and> fmlookup (elems (data (recv (env s)))) k = Some v0 \<longrightarrow>
      GetOrSetFuncLock call env (Cmp k) f s = Inr (v0, env s))
   \<and> (fmlookup (elems (data (recv s))) k = None
        \<and> fmlookup (elems (data (recv (env s)))) k = None \<longrightarrow>
      (call f (data (recv (env s)), world (env s)) = None
         \<and> GetOrSetFuncLock call env (Cmp k) f s = Inl Aborted)
      \<or> (\<exists>r d w. call f (data (recv (env s)), world (env s)) = Some (r, d, w)
         \<and> GetOrSetFuncLock call env (Cmp k) f s
           = (case d of
                Nil_map \<Rightarrow> Inl NilMap
              | Made e n \<Rightarrow>
                  Inr (r, \<lparr>recv = (recv (env s))\<lparr>data := Made (fmupd k r e) n\<rparr>, world = w,
                            invoked = invoked (env s) @ [f]\<rparr>))))
   \<and> (\<not> hashable key \<longrightarrow> GetOrSetFuncLock call env key f s = Inl Unhashable)
   \<and> ((call f (data (recv (env s)), world (env s)) = None
         \<and> GetOrSetFuncLock call env NaN f s = Inl Aborted)
      \<or> (\<exists>r d w. call f (data (recv (env s)), world (env s)) = Some (r, d, w)
         \<and> GetOrSetFuncLock call env NaN f s
           = (case d of
                Nil_map \<Rightarrow> Inl NilMap
              | Made e n \<Rightarrow>
                  Inr (r, \<lparr>recv = (recv (env s))\<lparr>data := Made e (add_mset r n)\<rparr>, world = w,
                            invoked = invoked (env s) @ [f]\<rparr>))))"
proof -
  have u: "GetOrSetFuncLock call env key f s = Inl Unhashable" if "\<not> hashable key"
    using that by (cases key) (simp_all add: GetOrSetFuncLock_def Search_def)
  have a: "GetOrSetFuncLock call env (Cmp k) f s
      = (case call f (data (recv (env s)), world (env s)) of
          None \<Rightarrow> Inl Aborted
        | Some (r, d, w) \<Rightarrow>
            (case d of
                Nil_map \<Rightarrow> Inl NilMap
              | Made e n \<Rightarrow>
                  Inr (r, \<lparr>recv = (recv (env s))\<lparr>data := Made (fmupd k r e) n\<rparr>, world = w,
                            invoked = invoked (env s) @ [f]\<rparr>)))"
    if "fmlookup (elems (data (recv s))) k = None"
      "fmlookup (elems (data (recv (env s)))) k = None"
    using that
    by (simp add: GetOrSetFuncLock_def Search_Cmp doSetWithLockCheck_Func
        split: option.split go_map.split)
  have b: "GetOrSetFuncLock call env NaN f s
      = (case call f (data (recv (env s)), world (env s)) of
          None \<Rightarrow> Inl Aborted
        | Some (r, d, w) \<Rightarrow>
            (case d of
                Nil_map \<Rightarrow> Inl NilMap
              | Made e n \<Rightarrow>
                  Inr (r, \<lparr>recv = (recv (env s))\<lparr>data := Made e (add_mset r n)\<rparr>, world = w,
                            invoked = invoked (env s) @ [f]\<rparr>)))"
    by (simp add: GetOrSetFuncLock_def Search_NaN doSetWithLockCheck_Func
        split: option.split go_map.split)
  show ?thesis
  proof (intro conjI impI; (elim conjE)?)
    assume "fmlookup (elems (data (recv s))) k = Some v"
    then show "GetOrSetFuncLock call env (Cmp k) f s = Inr (v, s)"
      by (simp add: GetOrSetFuncLock_def Search_Cmp)
  next
    assume "fmlookup (elems (data (recv s))) k = None"
      "fmlookup (elems (data (recv (env s)))) k = Some v0"
    then show "GetOrSetFuncLock call env (Cmp k) f s = Inr (v0, env s)"
      by (simp add: GetOrSetFuncLock_def Search_Cmp doSetWithLockCheck_present)
  next
    assume "fmlookup (elems (data (recv s))) k = None"
      "fmlookup (elems (data (recv (env s)))) k = None"
    from a [OF this] show "(call f (data (recv (env s)), world (env s)) = None
         \<and> GetOrSetFuncLock call env (Cmp k) f s = Inl Aborted)
      \<or> (\<exists>r d w. call f (data (recv (env s)), world (env s)) = Some (r, d, w)
         \<and> GetOrSetFuncLock call env (Cmp k) f s
           = (case d of
                Nil_map \<Rightarrow> Inl NilMap
              | Made e n \<Rightarrow>
                  Inr (r, \<lparr>recv = (recv (env s))\<lparr>data := Made (fmupd k r e) n\<rparr>, world = w,
                            invoked = invoked (env s) @ [f]\<rparr>)))"
      by (cases "call f (data (recv (env s)), world (env s))") auto
  next
    assume "\<not> hashable key"
    then show "GetOrSetFuncLock call env key f s = Inl Unhashable"
      by (rule u)
  next
    from b show "(call f (data (recv (env s)), world (env s)) = None
         \<and> GetOrSetFuncLock call env NaN f s = Inl Aborted)
      \<or> (\<exists>r d w. call f (data (recv (env s)), world (env s)) = Some (r, d, w)
         \<and> GetOrSetFuncLock call env NaN f s
           = (case d of
                Nil_map \<Rightarrow> Inl NilMap
              | Made e n \<Rightarrow>
                  Inr (r, \<lparr>recv = (recv (env s))\<lparr>data := Made e (add_mset r n)\<rparr>, world = w,
                            invoked = invoked (env s) @ [f]\<rparr>)))"
      by (cases "call f (data (recv (env s)), world (env s))") auto
  qed
qed

theorem GetOrSetFuncLock_calls_f_at_most_once_witness:
  "GetOrSetFuncLock (returning (Cmp (KInt 7))) (racer (KInt 1) (Cmp (KInt 9))) (Cmp (KInt 1)) 0
       (alone (NewFrom (of_list [(KInt 1, Cmp (KInt 4))]) []))
     = Inr (Cmp (KInt 4), alone (NewFrom (of_list [(KInt 1, Cmp (KInt 4))]) []))
   \<and> GetOrSetFuncLock (returning (Cmp (KInt 7))) (racer (KInt 1) (Cmp (KInt 9))) (Cmp (KInt 1)) 0
       (alone (New []))
     = Inr (Cmp (KInt 9), alone (NewFrom (of_list [(KInt 1, Cmp (KInt 9))]) []))
   \<and> GetOrSetFuncLock (returning (Cmp (KInt 7))) (\<lambda>s. s) (Cmp (KInt 1)) 0 (alone (New []))
     = Inr (Cmp (KInt 7),
         \<lparr>recv = NewFrom (of_list [(KInt 1, Cmp (KInt 7))]) [], world = (), invoked = [0]\<rparr>)
   \<and> GetOrSetFuncLock (returning (Cmp (KInt 7))) (\<lambda>s. s) (Func 5) 0 (alone (New []))
     = Inl Unhashable
   \<and> GetOrSetFuncLock (returning (Cmp (KInt 7))) (\<lambda>s. s) (Cmp (KInt 1)) 0
       (alone (NewFrom Nil_map []))
     = Inl NilMap"
  using GetOrSetFuncLock_calls_f_at_most_once
      [of "alone (NewFrom (of_list [(KInt 1, Cmp (KInt 4))]) [])" "KInt 1" "Cmp (KInt 4)"
        "returning (Cmp (KInt 7))" "racer (KInt 1) (Cmp (KInt 9))" 0 undefined "Cmp (KInt 1)"]
    GetOrSetFuncLock_calls_f_at_most_once
      [of "alone (New [])" "KInt 1" undefined "returning (Cmp (KInt 7))"
        "racer (KInt 1) (Cmp (KInt 9))" 0 "Cmp (KInt 9)" "Cmp (KInt 1)"]
    GetOrSetFuncLock_calls_f_at_most_once
      [of "alone (New [])" "KInt 1" undefined "returning (Cmp (KInt 7))" "\<lambda>s. s" 0 undefined
        "Func 5"]
    GetOrSetFuncLock_calls_f_at_most_once
      [of "alone (NewFrom Nil_map [])" "KInt 1" undefined "returning (Cmp (KInt 7))" "\<lambda>s. s" 0
        undefined "Func 5"]
  by (simp add: alone_def New_def NewFrom_def returning_def racer_def of_list_def make_map_def)

subsection \<open>Loops over the entries of a map\<close>

lemma hashable_cases: "hashable k \<longleftrightarrow> k = NaN \<or> (\<exists>c. k = Cmp c)"
  by (cases k) simp_all

lemma range_assign_Nil_map:
  "range_assign es Nil_map = (if es = [] then Inr Nil_map else Inl NilMap)"
  by (cases es) auto

lemma range_assign_Made:
  "list_all (\<lambda>(k, v). hashable k) es \<Longrightarrow>
   range_assign es (Made e n)
     = Inr (Made (e ++\<^sub>f fmap_of_list (rev (eq_entries es))) (n + mset (nan_entries es)))"
proof (induction es arbitrary: e n)
  case Nil
  then show ?case by simp
next
  case (Cons x es)
  obtain k v where x: "x = (k, v)" by (cases x)
  from Cons.prems x have k: "hashable k" and rest: "list_all (\<lambda>(k, v). hashable k) es"
    by simp_all
  show ?case
  proof (cases k)
    case (Cmp c)
    with x Cons.IH [OF rest, of "fmupd c v e" n] show ?thesis by simp
  next
    case NaN
    with x Cons.IH [OF rest, of e "add_mset v n"] show ?thesis by simp
  next
    case (Func f)
    with k show ?thesis by simp
  next
    case (Other y)
    with k show ?thesis by simp
  qed
qed

lemma range_assign_Unhashable:
  "\<not> list_all (\<lambda>(k, v). hashable k) es \<Longrightarrow> range_assign es (Made e n) = Inl Unhashable"
proof (induction es arbitrary: e n)
  case Nil
  then show ?case by simp
next
  case (Cons x es)
  obtain k v where x: "x = (k, v)" by (cases x)
  show ?case
  proof (cases k)
    case (Cmp c)
    with x Cons.prems have "\<not> list_all (\<lambda>(k, v). hashable k) es" by simp
    from Cons.IH [OF this] x Cmp show ?thesis by simp
  next
    case NaN
    with x Cons.prems have "\<not> list_all (\<lambda>(k, v). hashable k) es" by simp
    from Cons.IH [OF this] x NaN show ?thesis by simp
  next
    case (Func f)
    with x show ?thesis by simp
  next
    case (Other y)
    with x show ?thesis by simp
  qed
qed

lemma map_of_rev_distinct: "distinct (map fst l) \<Longrightarrow> map_of (rev l) = map_of l"
  by (subst map_of_inject_set) (simp_all add: rev_map [symmetric])

lemma fmap_of_list_rev:
  "distinct (map fst l) \<Longrightarrow> fmap_of_list (rev l) = fmap_of_list l"
  by (rule fmap_ext) (simp add: fmlookup_of_list map_of_rev_distinct)

lemma fmadd_lookup_Some: "fmlookup n k = Some v \<Longrightarrow> fmlookup (m ++\<^sub>f n) k = Some v"
  by (simp add: fmdomI)

lemma fmadd_lookup_None: "fmlookup n k = None \<Longrightarrow> fmlookup (m ++\<^sub>f n) k = fmlookup m k"
  by (simp add: fmdom_notI)

lemma length_entries:
  "list_all (\<lambda>(k, v). hashable k) es \<Longrightarrow>
   length es = length (eq_entries es) + length (nan_entries es)"
proof (induction es)
  case Nil
  then show ?case by simp
next
  case (Cons x es)
  obtain k v where x: "x = (k, v)" by (cases x)
  with Cons show ?case by (cases k) simp_all
qed

lemma fcard_fmdom_of_list:
  "distinct (map fst l) \<Longrightarrow> fcard (fmdom (fmap_of_list l)) = length l"
  using distinct_card [of "map fst l"] by (simp add: fcard.rep_eq fset_of_list.rep_eq)

lemma range_order_len: "range_order d es \<Longrightarrow> len d = length es"
proof -
  assume r: "range_order d es"
  then have "fcard (fmdom (elems d)) = length (eq_entries es)"
    using fcard_fmdom_of_list [of "eq_entries es"] by (simp add: range_order_def)
  moreover from r have "size (nans d) = length (nan_entries es)"
    by (metis range_order_def size_mset)
  ultimately show ?thesis
    using r length_entries [of es] by (simp add: len_def range_order_def)
qed

lemma range_order_assign:
  assumes "range_order d es"
  shows "range_assign es (Made e n) = Inr (Made (e ++\<^sub>f elems d) (n + nans d))"
  using assms range_assign_Made [of es e n] fmap_of_list_rev [of "eq_entries es"]
  by (simp add: range_order_def)

text \<open>
  C5, as the code has it. When the receiver's map is made, after \<^verbatim>\<open>Merge(other)\<close> every
  key of \<open>other\<close> that equals itself is in the receiver with the value it has in
  \<open>other\<close>, every other such key is as it was in the receiver, every entry of \<open>other\<close>
  under a NaN key is one more entry of the receiver, and when the two maps have no key in
  common the size of the receiver is the sum of the two sizes. This holds in whatever
  order the loop visits the entries of \<open>other\<close>. When the receiver's map is nil,
  \<^verbatim>\<open>Merge\<close> panics at the first entry of \<open>other\<close>, and returns with nothing done when
  \<open>other\<close> is empty.
\<close>

theorem Merge_overwrites_and_adds:
  assumes r: "range_order (data other) (ord (data other))"
  shows "(data m = Made e n \<longrightarrow>
      (\<exists>m'. Merge ord other m = Inr m'
         \<and> (\<forall>k v. fmlookup (elems (data other)) k = Some v \<longrightarrow>
              fmlookup (elems (data m')) k = Some v)
         \<and> (\<forall>k. fmlookup (elems (data other)) k = None \<longrightarrow>
              fmlookup (elems (data m')) k = fmlookup (elems (data m)) k)
         \<and> nans (data m') = nans (data m) + nans (data other)
         \<and> (fmdom (elems (data m)) |\<inter>| fmdom (elems (data other)) = {||} \<longrightarrow>
              Size m' = Size m + Size other)
         \<and> mu m' = mu m))
     \<and> (data m = Nil_map \<and> Size other = 0 \<longrightarrow> Merge ord other m = Inr m)
     \<and> (data m = Nil_map \<and> Size other \<noteq> 0 \<longrightarrow> Merge ord other m = Inl NilMap)"
proof (intro conjI impI; (elim conjE)?)
  assume d: "data m = Made e n"
  let ?m' = "m\<lparr>data := Made (e ++\<^sub>f elems (data other)) (n + nans (data other))\<rparr>"
  have "Merge ord other m = Inr ?m'"
    using d range_order_assign [OF r, of e n] by (simp add: Merge_def)
  moreover have "Size ?m' = Size m + Size other"
    if "fmdom (elems (data m)) |\<inter>| fmdom (elems (data other)) = {||}"
    using that d by (simp add: Size_def len_def fcard_funion_disjoint)
  ultimately show "\<exists>m'. Merge ord other m = Inr m'
         \<and> (\<forall>k v. fmlookup (elems (data other)) k = Some v \<longrightarrow>
              fmlookup (elems (data m')) k = Some v)
         \<and> (\<forall>k. fmlookup (elems (data other)) k = None \<longrightarrow>
              fmlookup (elems (data m')) k = fmlookup (elems (data m)) k)
         \<and> nans (data m') = nans (data m) + nans (data other)
         \<and> (fmdom (elems (data m)) |\<inter>| fmdom (elems (data other)) = {||} \<longrightarrow>
              Size m' = Size m + Size other)
         \<and> mu m' = mu m"
    using d by (intro exI [of _ ?m']) (simp add: fmadd_lookup_Some fmadd_lookup_None del: fmlookup_add)
next
  assume "data m = Nil_map" "Size other = 0"
  with range_order_len [OF r] show "Merge ord other m = Inr m"
    by (simp add: Merge_def Size_def)
next
  assume "data m = Nil_map" "Size other \<noteq> 0"
  with range_order_len [OF r] show "Merge ord other m = Inl NilMap"
    by (simp add: Merge_def Size_def range_assign_Nil_map)
qed

theorem Merge_overwrites_and_adds_witness:
  "range_order (data (NewFrom (Made (fmap_of_list [(KInt 2, Cmp (KStr ''two''))]) {#Other 0#}) []))
     (listed [(NaN, Other 0), (Cmp (KInt 2), Cmp (KStr ''two''))]
       (data (NewFrom (Made (fmap_of_list [(KInt 2, Cmp (KStr ''two''))]) {#Other 0#}) [])))
   \<and> bind (Merge (listed [(NaN, Other 0), (Cmp (KInt 2), Cmp (KStr ''two''))])
         (NewFrom (Made (fmap_of_list [(KInt 2, Cmp (KStr ''two''))]) {#Other 0#}) [])
         (NewFrom (of_list [(KInt 1, Cmp (KStr ''one'')), (KInt 2, Cmp (KStr ''old''))]) []))
       (Get (Cmp (KInt 2)))
     = Inr (Cmp (KStr ''two''))
   \<and> bind (Merge (listed [(NaN, Other 0), (Cmp (KInt 2), Cmp (KStr ''two''))])
         (NewFrom (Made (fmap_of_list [(KInt 2, Cmp (KStr ''two''))]) {#Other 0#}) [])
         (NewFrom (of_list [(KInt 1, Cmp (KStr ''one'')), (KInt 2, Cmp (KStr ''old''))]) []))
       (Get (Cmp (KInt 1)))
     = Inr (Cmp (KStr ''one''))
   \<and> Merge (listed [(NaN, Other 0), (Cmp (KInt 2), Cmp (KStr ''two''))])
         (NewFrom (Made (fmap_of_list [(KInt 2, Cmp (KStr ''two''))]) {#Other 0#}) [])
         (NewFrom (of_list [(KInt 1, Cmp (KStr ''one''))]) [])
     = Inr (NewFrom (Made (fmap_of_list [(KInt 2, Cmp (KStr ''two'')), (KInt 1, Cmp (KStr ''one''))])
              {#Other 0#}) [])
   \<and> Size (NewFrom (Made (fmap_of_list [(KInt 2, Cmp (KStr ''two'')), (KInt 1, Cmp (KStr ''one''))])
              {#Other 0#}) [])
     = Size (NewFrom (of_list [(KInt 1, Cmp (KStr ''one''))]) [])
       + Size (NewFrom (Made (fmap_of_list [(KInt 2, Cmp (KStr ''two''))]) {#Other 0#}) [])
   \<and> Merge (listed []) (New []) (NewFrom Nil_map []) = Inr (NewFrom Nil_map [])"
proof -
  let ?other = "NewFrom (Made (fmap_of_list [(KInt 2, Cmp (KStr ''two''))]) {#Other 0#}) []"
  let ?ord = "listed [(NaN, Other 0), (Cmp (KInt 2), Cmp (KStr ''two''))]"
  have r: "range_order (data ?other) (?ord (data ?other))"
    by (simp add: range_order_def listed_def NewFrom_def)
  have r0: "range_order (data (New [])) (listed [] (data (New [])))"
    by (simp add: range_order_def listed_def New_def make_map_def)
  show ?thesis
    using r Merge_overwrites_and_adds [of ?other ?ord
        "NewFrom (of_list [(KInt 1, Cmp (KStr ''one'')), (KInt 2, Cmp (KStr ''old''))]) []"
        "fmap_of_list [(KInt 1, Cmp (KStr ''one'')), (KInt 2, Cmp (KStr ''old''))]" "{#}", OF r]
      Merge_overwrites_and_adds [of ?other ?ord
        "NewFrom (of_list [(KInt 1, Cmp (KStr ''one''))]) []"
        "fmap_of_list [(KInt 1, Cmp (KStr ''one''))]" "{#}", OF r]
      Merge_overwrites_and_adds [of "New []" "listed []" "NewFrom Nil_map []" fmempty "{#}",
        OF r0]
    by (simp add: Merge_def Get_def NewFrom_def New_def of_list_def listed_def make_map_def
        Size_def len_def fcard_finsert_if)
qed

text \<open>
  The claim C5 is about every two maps. On the receiver of \<^verbatim>\<open>NewFrom(nil)\<close> and
  \<open>other = {1: 2}\<close>, \<^verbatim>\<open>Merge\<close> panics and no key of \<open>other\<close> is in the receiver.
\<close>

theorem Merge_into_nil_map_counterexample:
  "range_order (data (NewFrom (of_list [(KInt 1, Cmp (KInt 2))]) []))
     (listed [(Cmp (KInt 1), Cmp (KInt 2))] (data (NewFrom (of_list [(KInt 1, Cmp (KInt 2))]) [])))
   \<and> Merge (listed [(Cmp (KInt 1), Cmp (KInt 2))]) (NewFrom (of_list [(KInt 1, Cmp (KInt 2))]) [])
       (NewFrom Nil_map [])
     = Inl NilMap"
  by (simp add: range_order_def listed_def NewFrom_def of_list_def Merge_def)

lemma upt_shift: "[i..<Suc (i + n)] = i # [Suc i..<Suc (i + n)]"
  by (simp add: upt_conv_Cons del: upt_Suc)

lemma NewFromArray_loop_range_assign:
  "NewFromArray_loop keys vs i m
     = range_assign
         (zip keys (map (\<lambda>j. if j < length vs then vs ! j else nil) [i..<i + length keys])) m"
proof (induction keys arbitrary: i m)
  case Nil
  then show ?case by simp
next
  case (Cons k keys)
  have "NewFromArray_loop keys vs (Suc i)
      = range_assign
          (zip keys (map (\<lambda>j. if j < length vs then vs ! j else nil)
             [Suc i..<Suc (i + length keys)]))"
    using Cons.IH [of "Suc i"] by (intro ext) (simp del: upt_Suc)
  then show ?case
    by (cases "i < length vs") (simp_all add: upt_shift del: upt_Suc)
qed

lemma range_assign_elems_notin:
  "range_assign es (Made e n) = Inr d \<Longrightarrow> Cmp k \<notin> fst ` set es \<Longrightarrow>
   fmlookup (elems d) k = fmlookup e k"
proof (induction es arbitrary: e n)
  case Nil
  then show ?case by auto
next
  case (Cons x es)
  obtain k0 v where x: "x = (k0, v)" by (cases x)
  from Cons.prems(2) x have notin: "Cmp k \<notin> fst ` set es" and ne: "k0 \<noteq> Cmp k"
    by auto
  show ?case
  proof (cases k0)
    case (Cmp c)
    with Cons.prems(1) x have "range_assign es (Made (fmupd c v e) n) = Inr d" by simp
    from Cons.IH [OF this notin] Cmp ne show ?thesis by auto
  next
    case NaN
    with Cons.prems(1) x have "range_assign es (Made e (add_mset v n)) = Inr d" by simp
    from Cons.IH [OF this notin] show ?thesis .
  next
    case (Func f)
    with Cons.prems(1) x show ?thesis by simp
  next
    case (Other y)
    with Cons.prems(1) x show ?thesis by simp
  qed
qed

lemma range_assign_elems_last:
  "range_assign es (Made e n) = Inr d \<Longrightarrow> j < length es \<Longrightarrow> es ! j = (Cmp k, v) \<Longrightarrow>
   Cmp k \<notin> fst ` set (drop (Suc j) es) \<Longrightarrow> fmlookup (elems d) k = Some v"
proof (induction es arbitrary: e n j)
  case Nil
  then show ?case by simp
next
  case (Cons x es)
  obtain k0 v0 where x: "x = (k0, v0)" by (cases x)
  from Cons.prems(1) x obtain d1 where
    d1: "mapassign (Made e n) k0 v0 = Inr d1" and rest: "range_assign es d1 = Inr d"
    by (auto simp add: bind_eq_Inr)
  from d1 obtain e1 n1 where m1: "d1 = Made e1 n1"
    by (cases k0) auto
  show ?case
  proof (cases j)
    case 0
    with Cons.prems x have k0: "k0 = Cmp k" "v0 = v" and notin: "Cmp k \<notin> fst ` set es"
      by auto
    with d1 m1 have "fmlookup e1 k = Some v" by auto
    with range_assign_elems_notin [OF rest [unfolded m1] notin] show ?thesis by simp
  next
    case (Suc j')
    with Cons.prems have "j' < length es" "es ! j' = (Cmp k, v)"
      "Cmp k \<notin> fst ` set (drop (Suc j') es)"
      by auto
    from Cons.IH [OF rest [unfolded m1] this] show ?thesis .
  qed
qed

subsection \<open>\<^verbatim>\<open>NewFromArray\<close>\<close>

lemma list_all_zip_fst:
  "length xs = length ys \<Longrightarrow> list_all (\<lambda>(k, v). P k) (zip xs ys) = list_all P xs"
  by (induction xs ys rule: list_induct2) simp_all

lemma fst_set_zip: "length xs = length ys \<Longrightarrow> fst ` set (zip xs ys) = set xs"
  by (induction xs ys rule: list_induct2) simp_all

lemma eq_entries_keys: "k \<in> fst ` set (eq_entries es) \<longleftrightarrow> Cmp k \<in> fst ` set es"
proof (induction es)
  case Nil
  then show ?case by simp
next
  case (Cons x es)
  obtain k0 v where x: "x = (k0, v)" by (cases x)
  with Cons show ?case by (cases k0) auto
qed

lemma fmlookup_of_list_present:
  "fmlookup (fmap_of_list l) k \<noteq> None \<longleftrightarrow> k \<in> fst ` set l"
  by (simp add: fmlookup_of_list map_of_eq_None_iff)

text \<open>
  C6, as the code has it. When every key can be hashed, \<^verbatim>\<open>NewFromArray(keys, values)\<close>
  returns a map whose keys that equal themselves are those among \<open>keys\<close>; such a key
  whose last position in \<open>keys\<close> is \<open>j\<close> has the value \<open>values[j]\<close> when
  \<open>j < len(values)\<close> and nil otherwise, and it is in the map in both cases. So
  \<open>keys[i]\<close> has the value \<open>values[i]\<close>, or nil, whenever \<open>keys[i]\<close> does not occur
  again after position \<open>i\<close>. A NaN among \<open>keys\<close> gets one entry for each of its
  positions, with the value of that position, and is not found in the map. A key that
  cannot be hashed makes the constructor panic.
\<close>

theorem NewFromArray_last_occurrence:
  "(list_all hashable keys \<longrightarrow>
      (\<exists>m. NewFromArray keys vs unsafe = Inr m
         \<and> (\<forall>k. Contains (Cmp k) m = Inr (Cmp k \<in> set keys))
         \<and> (\<forall>j k. j < length keys \<and> keys ! j = Cmp k \<and> Cmp k \<notin> set (drop (Suc j) keys) \<longrightarrow>
              Search (Cmp k) m = Inr (if j < length vs then vs ! j else nil, True))
         \<and> nans (data m)
             = mset (nan_entries
                 (zip keys (map (\<lambda>j. if j < length vs then vs ! j else nil) [0..<length keys])))
         \<and> Contains NaN m = Inr False))
   \<and> (\<not> list_all hashable keys \<longrightarrow> NewFromArray keys vs unsafe = Inl Unhashable)"
proof -
  define pads where "pads = map (\<lambda>j. if j < length vs then vs ! j else nil) [0..<length keys]"
  define es where "es = zip keys pads"
  have len: "length keys = length pads"
    by (simp add: pads_def)
  have loop: "NewFromArray_loop keys vs 0 make_map = range_assign es (Made fmempty {#})"
    using NewFromArray_loop_range_assign [of keys vs 0 make_map]
    by (simp add: es_def pads_def make_map_def)
  have hash: "list_all (\<lambda>(k, v). hashable k) es = list_all hashable keys"
    unfolding es_def by (rule list_all_zip_fst [OF len])
  have keys: "fst ` set es = set keys"
    unfolding es_def by (rule fst_set_zip [OF len])
  have bad: "NewFromArray keys vs unsafe = Inl Unhashable" if "\<not> list_all hashable keys"
    using that hash loop range_assign_Unhashable [of es fmempty "{#}"]
    by (simp add: NewFromArray_def)
  have good: "\<exists>m. NewFromArray keys vs unsafe = Inr m
         \<and> (\<forall>k. Contains (Cmp k) m = Inr (Cmp k \<in> set keys))
         \<and> (\<forall>j k. j < length keys \<and> keys ! j = Cmp k \<and> Cmp k \<notin> set (drop (Suc j) keys) \<longrightarrow>
              Search (Cmp k) m = Inr (if j < length vs then vs ! j else nil, True))
         \<and> nans (data m) = mset (nan_entries es)
         \<and> Contains NaN m = Inr False"
    if h: "list_all hashable keys"
  proof -
    let ?d = "Made (fmempty ++\<^sub>f fmap_of_list (rev (eq_entries es))) ({#} + mset (nan_entries es))"
    let ?m = "\<lparr>mu = rwmutex_New unsafe, data = ?d\<rparr>"
    have run: "range_assign es (Made fmempty {#}) = Inr ?d"
      using h hash by (intro range_assign_Made) simp
    then have new: "NewFromArray keys vs unsafe = Inr ?m"
      using loop by (simp add: NewFromArray_def)
    have c: "Contains (Cmp k) ?m = Inr (Cmp k \<in> set keys)" for k
      using fmlookup_of_list_present [of "rev (eq_entries es)" k] eq_entries_keys [of k es] keys
      by (simp add: Contains_Cmp)
    have s: "Search (Cmp k) ?m = Inr (if j < length vs then vs ! j else nil, True)"
      if "j < length keys" "keys ! j = Cmp k" "Cmp k \<notin> set (drop (Suc j) keys)" for j k
    proof -
      from that(1) have j: "j < length es"
        by (simp add: es_def pads_def)
      from that(1,2) have at: "es ! j = (Cmp k, if j < length vs then vs ! j else nil)"
        by (simp add: es_def pads_def)
      have "fst ` set (drop (Suc j) es) = set (drop (Suc j) keys)"
        using len by (simp add: es_def drop_zip fst_set_zip)
      with that(3) have "Cmp k \<notin> fst ` set (drop (Suc j) es)"
        by simp
      from range_assign_elems_last [OF run j at this] show ?thesis
        by (simp add: Search_Cmp)
    qed
    from new c s show ?thesis
      by (intro exI [of _ ?m]) (simp add: Contains_NaN)
  qed
  from good bad show ?thesis
    by (simp add: es_def pads_def)
qed

theorem NewFromArray_last_occurrence_witness:
  "NewFromArray [Cmp (KInt 1), Cmp (KInt 2), Cmp (KInt 3)] [Cmp (KInt 10), Cmp (KInt 20)] []
     = Inr (NewFrom
         (of_list [(KInt 3, nil), (KInt 2, Cmp (KInt 20)), (KInt 1, Cmp (KInt 10))]) [])
   \<and> NewFromArray [NaN, Cmp (KInt 1), NaN] [Cmp (KInt 10), Cmp (KInt 20)] []
     = Inr (NewFrom (Made (fmap_of_list [(KInt 1, Cmp (KInt 20))]) {#nil, Cmp (KInt 10)#}) [])
   \<and> Contains NaN (NewFrom (Made (fmap_of_list [(KInt 1, Cmp (KInt 20))]) {#nil, Cmp (KInt 10)#}) [])
     = Inr False
   \<and> NewFromArray [Cmp (KInt 1), Func 0] [Cmp (KInt 10)] [] = Inl Unhashable"
  using NewFromArray_last_occurrence [of "[Cmp (KInt 1), Cmp (KInt 2), Cmp (KInt 3)]"
      "[Cmp (KInt 10), Cmp (KInt 20)]" "[]"]
    NewFromArray_last_occurrence [of "[NaN, Cmp (KInt 1), NaN]" "[Cmp (KInt 10), Cmp (KInt 20)]" "[]"]
    NewFromArray_last_occurrence [of "[Cmp (KInt 1), Func 0]" "[Cmp (KInt 10)]" "[]"]
  by (simp add: NewFromArray_def NewFrom_def of_list_def make_map_def Contains_NaN)

text \<open>
  The claim C6 gives \<open>keys[i]\<close> the value \<open>values[i]\<close> for every \<open>i < len(values)\<close>.
  A key that is repeated takes the value of its last position: for the keys \<open>[1, 1]\<close> and
  the values \<open>[10]\<close> the map is \<open>{1: nil}\<close>, and \<open>keys[0]\<close> does not have the value
  \<open>values[0]\<close>. For the keys \<open>[NaN, 2]\<close> and the values \<open>[10]\<close> the value 10 is
  stored, and \<open>keys[0]\<close> is not found in the map.
\<close>

theorem NewFromArray_repeated_key_counterexample:
  "length [Cmp (KInt 1), Cmp (KInt 1)] > length [Cmp (KInt 10)]
   \<and> NewFromArray [Cmp (KInt 1), Cmp (KInt 1)] [Cmp (KInt 10)] []
     = Inr (NewFrom (of_list [(KInt 1, nil)]) [])
   \<and> Get ([Cmp (KInt 1), Cmp (KInt 1)] ! 0) (NewFrom (of_list [(KInt 1, nil)]) [])
     \<noteq> Inr ([Cmp (KInt 10)] ! 0)
   \<and> NewFromArray [NaN, Cmp (KInt 2)] [Cmp (KInt 10)] []
     = Inr (NewFrom (Made (fmap_of_list [(KInt 2, nil)]) {#Cmp (KInt 10)#}) [])
   \<and> Contains NaN (NewFrom (Made (fmap_of_list [(KInt 2, nil)]) {#Cmp (KInt 10)#}) [])
     = Inr False"
  by (simp add: NewFromArray_def NewFrom_def Get_def of_list_def make_map_def Contains_NaN)

subsection \<open>The entries that a loop visits\<close>

lemma eq_entries_mem: "(c, v) \<in> set (eq_entries es) \<longleftrightarrow> (Cmp c, v) \<in> set es"
proof (induction es)
  case Nil
  then show ?case by simp
next
  case (Cons x es)
  obtain k0 v0 where x: "x = (k0, v0)" by (cases x)
  with Cons show ?case by (cases k0) auto
qed

lemma nan_entries_mem: "v \<in> set (nan_entries es) \<longleftrightarrow> (NaN, v) \<in> set es"
proof (induction es)
  case Nil
  then show ?case by simp
next
  case (Cons x es)
  obtain k0 v0 where x: "x = (k0, v0)" by (cases x)
  with Cons show ?case by (cases k0) auto
qed

lemma mset_eq_entries:
  "mset (eq_entries es)
     = image_mset (\<lambda>(k, v). (case k of Cmp c \<Rightarrow> c | _ \<Rightarrow> KNil, v))
         (filter_mset (\<lambda>(k, v). \<exists>c. k = Cmp c) (mset es))"
proof (induction es)
  case Nil
  then show ?case by simp
next
  case (Cons x es)
  obtain k0 v0 where x: "x = (k0, v0)" by (cases x)
  with Cons show ?case by (cases k0) simp_all
qed

lemma mset_nan_entries:
  "mset (nan_entries es) = image_mset snd (filter_mset (\<lambda>(k, v). k = NaN) (mset es))"
proof (induction es)
  case Nil
  then show ?case by simp
next
  case (Cons x es)
  obtain k0 v0 where x: "x = (k0, v0)" by (cases x)
  with Cons show ?case by (cases k0) simp_all
qed

lemma mset_entries:
  "list_all (\<lambda>(k, v). hashable k) es \<Longrightarrow>
   mset es = image_mset (\<lambda>(c, v). (Cmp c, v)) (mset (eq_entries es))
           + image_mset (Pair NaN) (mset (nan_entries es))"
proof (induction es)
  case Nil
  then show ?case by simp
next
  case (Cons x es)
  obtain k0 v0 where x: "x = (k0, v0)" by (cases x)
  with Cons show ?case by (cases k0) simp_all
qed

lemma distinct_keys_mset:
  assumes "distinct (map fst l)" "distinct (map fst l')" "fmap_of_list l = fmap_of_list l'"
  shows "mset l = mset l'"
proof -
  from assms(3) have "map_of l = map_of l'"
    by (metis fmlookup_of_list)
  with assms(1,2) have "set l = set l'"
    by (simp add: map_of_inject_set)
  moreover from assms(1,2) have "distinct l" "distinct l'"
    by (simp_all add: distinct_map)
  ultimately show ?thesis
    by (simp add: set_eq_iff_mset_eq_distinct)
qed

lemma mset_keys_fmap:
  assumes "distinct (map fst l)" "mset l' = mset l"
  shows "distinct (map fst l') \<and> fmap_of_list l' = fmap_of_list l"
proof -
  from assms(2) have "mset (map fst l') = mset (map fst l)"
    by (metis mset_map)
  with assms(1) have d: "distinct (map fst l')"
    by (metis mset_eq_imp_distinct_iff)
  from assms(2) have "set l' = set l"
    by (rule mset_eq_setD)
  with d assms(1) have "map_of l' = map_of l"
    by (simp add: map_of_inject_set)
  then have "fmap_of_list l' = fmap_of_list l"
    by (intro fmap_ext) (simp add: fmlookup_of_list)
  with d show ?thesis ..
qed

text \<open>Two orders of one map visit the same entries; a rearrangement of an order is one.\<close>

lemma range_order_mset:
  assumes "range_order d es" "range_order d es'"
  shows "mset es = mset es'"
proof -
  from assms have "mset (eq_entries es) = mset (eq_entries es')"
    by (intro distinct_keys_mset) (simp_all add: range_order_def)
  moreover from assms have "mset (nan_entries es) = mset (nan_entries es')"
    by (simp add: range_order_def)
  ultimately show ?thesis
    using assms mset_entries [of es] mset_entries [of es'] by (simp add: range_order_def)
qed

lemma range_order_rearranged:
  assumes r: "range_order d es" and m: "mset es' = mset es"
  shows "range_order d es'"
proof -
  from m have "set es' = set es"
    by (rule mset_eq_setD)
  with r have "list_all (\<lambda>(k, v). hashable k) es'"
    by (simp add: range_order_def list_all_iff)
  moreover from m have e: "mset (eq_entries es') = mset (eq_entries es)"
    by (simp add: mset_eq_entries)
  from r have "distinct (map fst (eq_entries es))"
    by (simp add: range_order_def)
  from mset_keys_fmap [OF this e] r
  have "distinct (map fst (eq_entries es'))" "fmap_of_list (eq_entries es') = elems d"
    by (simp_all add: range_order_def)
  moreover from m r have "mset (nan_entries es') = nans d"
    by (simp add: mset_nan_entries range_order_def)
  ultimately show ?thesis
    by (simp add: range_order_def)
qed

lemma range_order_mem:
  assumes "range_order d es"
  shows "(k, v) \<in> set es
     \<longleftrightarrow> (\<exists>c. k = Cmp c \<and> fmlookup (elems d) c = Some v) \<or> k = NaN \<and> v \<in># nans d"
proof -
  from assms have h: "list_all (\<lambda>(k, v). hashable k) es"
    and dist: "distinct (map fst (eq_entries es))"
    and e: "fmap_of_list (eq_entries es) = elems d"
    and n: "mset (nan_entries es) = nans d"
    by (simp_all add: range_order_def)
  have eq: "fmlookup (elems d) c = Some v \<longleftrightarrow> (Cmp c, v) \<in> set es" for c
    using dist e [symmetric] eq_entries_mem [of c v es] by (simp add: fmlookup_of_list)
  have nan: "v \<in># nans d \<longleftrightarrow> (NaN, v) \<in> set es"
    using n [symmetric] nan_entries_mem [of v es] by simp
  show ?thesis
  proof (cases k)
    case (Cmp c)
    with eq show ?thesis by simp
  next
    case NaN
    with nan show ?thesis by simp
  next
    case (Func f)
    with h show ?thesis by (auto simp add: list_all_iff)
  next
    case (Other x)
    with h show ?thesis by (auto simp add: list_all_iff)
  qed
qed

subsection \<open>\<^verbatim>\<open>Flip\<close>\<close>

lemma Flip_loop_swap: "Flip_loop es n = range_assign (map prod.swap es) n"
proof (induction es arbitrary: n)
  case Nil
  then show ?case by simp
next
  case (Cons x es)
  obtain k v where x: "x = (k, v)" by (cases x)
  have "Flip_loop es = range_assign (map prod.swap es)"
    by (intro ext) (rule Cons.IH)
  with x show ?case by simp
qed

lemma swap_hashable:
  "list_all (\<lambda>(k, v). hashable k) (map prod.swap es) = list_all (\<lambda>(k, v). hashable v) es"
  by (induction es) auto

lemma count_swapped_keys:
  "count (image_mset fst (mset (eq_entries (map prod.swap es)))) c
     = count (image_mset snd (mset es)) (Cmp c)"
proof (induction es)
  case Nil
  then show ?case by simp
next
  case (Cons x es)
  obtain k v where x: "x = (k, v)" by (cases x)
  with Cons show ?case by (cases v) simp_all
qed

lemma mset_values:
  "list_all (\<lambda>(k, v). hashable k) es \<Longrightarrow>
   image_mset snd (mset es) = image_mset snd (mset (eq_entries es)) + mset (nan_entries es)"
proof (induction es)
  case Nil
  then show ?case by simp
next
  case (Cons x es)
  obtain k v where x: "x = (k, v)" by (cases x)
  with Cons show ?case by (cases k) simp_all
qed

lemma finite_keys_with_value: "finite {k. map_of l k = Some x}"
  by (rule finite_subset [of _ "fst ` set l"]) (auto dest: map_of_SomeD intro: rev_image_eqI)

lemma count_values:
  "distinct (map fst l) \<Longrightarrow>
   count (image_mset snd (mset l)) x = card {k. map_of l k = Some x}"
proof (induction l)
  case Nil
  then show ?case by simp
next
  case (Cons e l)
  obtain k0 v0 where e: "e = (k0, v0)" by (cases e)
  from Cons.prems e have notin: "k0 \<notin> fst ` set l" and dist: "distinct (map fst l)"
    by simp_all
  from notin have none: "map_of l k0 = None"
    by (simp add: map_of_eq_None_iff)
  have ih: "count (image_mset snd (mset l)) x = card {k. map_of l k = Some x}"
    by (rule Cons.IH [OF dist])
  show ?case
  proof (cases "v0 = x")
    case True
    with none have "{k. map_of (e # l) k = Some x} = insert k0 {k. map_of l k = Some x}"
      using e by auto
    moreover from none have "k0 \<notin> {k. map_of l k = Some x}"
      by simp
    ultimately show ?thesis
      using ih e True finite_keys_with_value [of l x] by simp
  next
    case False
    with none have "{k. map_of (e # l) k = Some x} = {k. map_of l k = Some x}"
      using e by auto
    with ih e False show ?thesis by simp
  qed
qed

lemma distinct_iff_count: "distinct xs \<longleftrightarrow> (\<forall>x. count (mset xs) x \<le> 1)"
proof
  assume "distinct xs"
  then show "\<forall>x. count (mset xs) x \<le> 1"
    by (simp add: distinct_count_atmost_1)
next
  assume a: "\<forall>x. count (mset xs) x \<le> 1"
  have "count (mset xs) x = (if x \<in> set xs then 1 else 0)" for x
  proof (cases "x \<in> set xs")
    case True
    then have "0 < count (mset xs) x"
      by simp
    with a [rule_format, of x] have "count (mset xs) x = 1"
      by linarith
    with True show ?thesis by simp
  next
    case False
    then show ?thesis by (simp add: count_eq_zero_iff)
  qed
  then show "distinct xs"
    by (simp add: distinct_count_atmost_1)
qed

lemma range_order_count_values:
  assumes "range_order d es"
  shows "count (image_mset fst (mset (eq_entries (map prod.swap es)))) c
     = card {k. fmlookup (elems d) k = Some (Cmp c)} + count (nans d) (Cmp c)"
proof -
  from assms have h: "list_all (\<lambda>(k, v). hashable k) es"
    and dist: "distinct (map fst (eq_entries es))"
    and e: "fmap_of_list (eq_entries es) = elems d"
    and n: "mset (nan_entries es) = nans d"
    by (simp_all add: range_order_def)
  from e have "fmlookup (elems d) = map_of (eq_entries es)"
    by (metis fmlookup_of_list)
  with count_values [OF dist, of "Cmp c"] mset_values [OF h] n show ?thesis
    by (simp add: count_swapped_keys)
qed

lemma finite_keys_of: "finite {k. fmlookup e k = Some x}"
proof (rule finite_subset)
  show "{k. fmlookup e k = Some x} \<subseteq> fmdom' e"
    by (auto intro: fmdom'I)
  show "finite (fmdom' e)"
    by (simp add: fmdom'_alt_def)
qed

lemma values_distinct_iff:
  "values_distinct d
     \<longleftrightarrow> (\<forall>c. card {k. fmlookup (elems d) k = Some (Cmp c)} + count (nans d) (Cmp c) \<le> 1)"
proof
  assume v: "values_distinct d"
  show "\<forall>c. card {k. fmlookup (elems d) k = Some (Cmp c)} + count (nans d) (Cmp c) \<le> 1"
  proof
    fix c
    let ?S = "{k. fmlookup (elems d) k = Some (Cmp c)}"
    show "card ?S + count (nans d) (Cmp c) \<le> 1"
    proof (cases "?S = {}")
      case True
      with v show ?thesis by (simp add: values_distinct_def)
    next
      case False
      then obtain k where k: "fmlookup (elems d) k = Some (Cmp c)" by blast
      with v have "?S = {k}"
        by (auto simp add: values_distinct_def)
      moreover from v k have "count (nans d) (Cmp c) = 0"
        by (simp add: values_distinct_def count_eq_zero_iff)
      ultimately show ?thesis by simp
    qed
  qed
next
  assume a: "\<forall>c. card {k. fmlookup (elems d) k = Some (Cmp c)} + count (nans d) (Cmp c) \<le> 1"
  have one: "k = k'"
    if "fmlookup (elems d) k = Some (Cmp c)" "fmlookup (elems d) k' = Some (Cmp c)" for k k' c
  proof (rule ccontr)
    assume "k \<noteq> k'"
    with that have "card {k, k'} \<le> card {k. fmlookup (elems d) k = Some (Cmp c)}"
      by (intro card_mono finite_keys_of) auto
    with \<open>k \<noteq> k'\<close> a [rule_format, of c] show False by simp
  qed
  have two: "Cmp c \<notin># nans d" if "fmlookup (elems d) k = Some (Cmp c)" for k c
  proof
    assume "Cmp c \<in># nans d"
    then have "0 < count (nans d) (Cmp c)"
      by simp
    moreover from that have "card {k} \<le> card {k. fmlookup (elems d) k = Some (Cmp c)}"
      by (intro card_mono finite_keys_of) auto
    then have "1 \<le> card {k. fmlookup (elems d) k = Some (Cmp c)}"
      by simp
    ultimately show False
      using a [rule_format, of c] by linarith
  qed
  have three: "count (nans d) (Cmp c) \<le> 1" for c
    using a [rule_format, of c] by simp
  from one two three show "values_distinct d"
    unfolding values_distinct_def by blast
qed

lemma values_distinct_list:
  "range_order d es \<Longrightarrow>
   values_distinct d \<longleftrightarrow> distinct (map fst (eq_entries (map prod.swap es)))"
  by (simp add: values_distinct_iff distinct_iff_count range_order_count_values)

lemma values_hashable_list:
  assumes "range_order d es" "values_hashable d"
  shows "list_all (\<lambda>(k, v). hashable v) es"
  using assms range_order_mem [OF assms(1)]
  by (auto simp add: list_all_iff values_hashable_def)

lemma fcard_fmdom_of_list_le: "fcard (fmdom (fmap_of_list (rev l))) \<le> length l"
  using card_length [of "map fst l"] by (simp add: fcard.rep_eq fset_of_list.rep_eq)

lemma fcard_fmdom_of_list_less:
  assumes "\<not> distinct (map fst l)"
  shows "fcard (fmdom (fmap_of_list (rev l))) < length l"
proof -
  have "card (set (map fst l)) \<noteq> length (map fst l)"
    using assms card_distinct [of "map fst l"] by blast
  with card_length [of "map fst l"] have "card (set (map fst l)) < length l"
    by simp
  then show ?thesis
    by (simp add: fcard.rep_eq fset_of_list.rep_eq)
qed

lemma size_swapped_nans:
  "length (nan_entries (map prod.swap es)) = count (image_mset snd (mset es)) NaN"
proof (induction es)
  case Nil
  then show ?case by simp
next
  case (Cons x es)
  obtain k v where x: "x = (k, v)" by (cases x)
  with Cons show ?case by (cases v) simp_all
qed

lemma Flip_loop_make_map:
  assumes "list_all (\<lambda>(k, v). hashable v) es"
  shows "Flip_loop es make_map
     = Inr (Made (fmap_of_list (rev (eq_entries (map prod.swap es))))
         (mset (nan_entries (map prod.swap es))))"
proof -
  from assms have "list_all (\<lambda>(k, v). hashable k) (map prod.swap es)"
    by (simp add: swap_hashable)
  from range_assign_Made [OF this, of fmempty "{#}"] show ?thesis
    by (simp add: Flip_loop_swap make_map_def)
qed

lemma Flip_loop_Unhashable:
  assumes "\<not> list_all (\<lambda>(k, v). hashable v) es"
  shows "Flip_loop es make_map = Inl Unhashable"
proof -
  from assms have "\<not> list_all (\<lambda>(k, v). hashable k) (map prod.swap es)"
    by (simp add: swap_hashable)
  from range_assign_Unhashable [OF this, of fmempty "{#}"] show ?thesis
    by (simp add: Flip_loop_swap make_map_def)
qed

lemma Flip_Unhashable:
  assumes "range_order (data m) (ord (data m))"
    and "fmlookup (elems (data m)) k = Some v \<or> v \<in># nans (data m)"
    and "\<not> hashable v"
  shows "Flip ord m = Inl Unhashable"
proof -
  from assms(2) range_order_mem [OF assms(1)] obtain k' where "(k', v) \<in> set (ord (data m))"
    by blast
  with assms(3) have "\<not> list_all (\<lambda>(k, v). hashable v) (ord (data m))"
    by (auto simp add: list_all_iff)
  from Flip_loop_Unhashable [OF this] show ?thesis
    by (simp add: Flip_def)
qed

lemma Flip_result:
  assumes r: "range_order d es"
    and h: "values_hashable d"
    and xs: "xs = map prod.swap es"
    and d1: "d1 = Made (fmap_of_list (rev (eq_entries xs))) (mset (nan_entries xs))"
  shows "Flip_loop es make_map = Inr d1"
    and "fmlookup (elems d1) c \<noteq> None
           \<longleftrightarrow> (\<exists>k. fmlookup (elems d) k = Some (Cmp c)) \<or> Cmp c \<in># nans d"
    and "fmlookup (elems d1) c = Some v \<Longrightarrow>
           (\<exists>k. v = Cmp k \<and> fmlookup (elems d) k = Some (Cmp c)) \<or> v = NaN \<and> Cmp c \<in># nans d"
    and "v \<in># nans d1
           \<longleftrightarrow> (\<exists>k. v = Cmp k \<and> fmlookup (elems d) k = Some NaN) \<or> v = NaN \<and> NaN \<in># nans d"
    and "size (nans d1) = card {k. fmlookup (elems d) k = Some NaN} + count (nans d) NaN"
    and "values_hashable d1"
    and "len d1 \<le> len d"
    and "\<not> values_distinct d \<Longrightarrow> len d1 < len d"
    and "values_distinct d \<Longrightarrow> range_order d1 xs"
proof -
  have hv: "list_all (\<lambda>(k, v). hashable v) es"
    by (rule values_hashable_list [OF r h])
  then have hx: "list_all (\<lambda>(k, v). hashable k) xs"
    by (simp add: xs swap_hashable)
  from r have hk: "list_all (\<lambda>(k, v). hashable k) es"
    by (simp add: range_order_def)
  show "Flip_loop es make_map = Inr d1"
    using Flip_loop_make_map [OF hv] by (simp add: xs d1)
  have mem: "(k, v) \<in> set xs \<longleftrightarrow> (v, k) \<in> set es" for k v
    by (auto simp add: xs)
  have look: "(v, Cmp c) \<in> set es" if "fmlookup (elems d1) c = Some v" for c v
  proof -
    from that have "map_of (rev (eq_entries xs)) c = Some v"
      by (simp add: d1 fmlookup_of_list)
    then have "(c, v) \<in> set (eq_entries xs)"
      using map_of_SomeD by fastforce
    then show ?thesis
      by (simp add: eq_entries_mem mem)
  qed
  have dom: "fmlookup (elems d1) c \<noteq> None \<longleftrightarrow> (\<exists>k. (k, Cmp c) \<in> set es)" for c
  proof -
    have "fmlookup (elems d1) c \<noteq> None \<longleftrightarrow> c \<in> fst ` set (eq_entries xs)"
      using fmlookup_of_list_present [of "rev (eq_entries xs)" c] by (simp add: d1)
    also have "\<dots> \<longleftrightarrow> Cmp c \<in> fst ` set xs"
      by (rule eq_entries_keys)
    also have "\<dots> \<longleftrightarrow> (\<exists>k. (Cmp c, k) \<in> set xs)"
      by force
    finally show ?thesis
      by (simp add: mem)
  qed
  show "fmlookup (elems d1) c \<noteq> None
           \<longleftrightarrow> (\<exists>k. fmlookup (elems d) k = Some (Cmp c)) \<or> Cmp c \<in># nans d"
    unfolding dom range_order_mem [OF r] by blast
  show "(\<exists>k. v = Cmp k \<and> fmlookup (elems d) k = Some (Cmp c)) \<or> v = NaN \<and> Cmp c \<in># nans d"
    if "fmlookup (elems d1) c = Some v"
    using look [OF that] unfolding range_order_mem [OF r] by blast
  have "v \<in># nans d1 \<longleftrightarrow> (v, NaN) \<in> set es"
    using nan_entries_mem [of v xs] by (simp add: d1 mem)
  then show "v \<in># nans d1
           \<longleftrightarrow> (\<exists>k. v = Cmp k \<and> fmlookup (elems d) k = Some NaN) \<or> v = NaN \<and> NaN \<in># nans d"
    unfolding range_order_mem [OF r] by blast
  from r have dist: "distinct (map fst (eq_entries es))"
    and e: "fmap_of_list (eq_entries es) = elems d"
    and n: "mset (nan_entries es) = nans d"
    by (simp_all add: range_order_def)
  from e have lk: "fmlookup (elems d) = map_of (eq_entries es)"
    by (metis fmlookup_of_list)
  show "size (nans d1) = card {k. fmlookup (elems d) k = Some NaN} + count (nans d) NaN"
    using count_values [OF dist, of NaN] mset_values [OF hk] n lk
    by (simp add: d1 xs size_swapped_nans)
  show "values_hashable d1"
    unfolding values_hashable_def
  proof (intro conjI allI impI)
    fix c v
    assume "fmlookup (elems d1) c = Some v"
    from look [OF this] hk show "hashable v"
      by (auto simp add: list_all_iff)
  next
    fix v
    assume "v \<in># nans d1"
    then have "(v, NaN) \<in> set es"
      using nan_entries_mem [of v xs] by (simp add: d1 mem)
    with hk show "hashable v"
      by (auto simp add: list_all_iff)
  qed
  have len: "len d = length (eq_entries xs) + length (nan_entries xs)"
    using range_order_len [OF r] length_entries [OF hx] by (simp add: xs)
  show "len d1 \<le> len d"
    using fcard_fmdom_of_list_le [of "eq_entries xs"] len by (simp add: d1 len_def)
  show "len d1 < len d" if "\<not> values_distinct d"
  proof -
    from that have "\<not> distinct (map fst (eq_entries xs))"
      using values_distinct_list [OF r] by (simp add: xs)
    from fcard_fmdom_of_list_less [OF this] len show ?thesis
      by (simp add: d1 len_def)
  qed
  show "range_order d1 xs" if "values_distinct d"
  proof -
    from that have "distinct (map fst (eq_entries xs))"
      using values_distinct_list [OF r] by (simp add: xs)
    with hx fmap_of_list_rev [of "eq_entries xs"] show ?thesis
      by (simp add: range_order_def d1)
  qed
qed

lemma Flip_back:
  assumes r: "range_order d es"
    and r1: "range_order d1 (map prod.swap es)"
    and r2: "range_order d1 es1"
  shows "Flip_loop es1 make_map = Inr (Made (elems d) (nans d))"
proof -
  from range_order_mset [OF r2 r1] have "mset es1 = mset (map prod.swap es)" .
  then have "image_mset prod.swap (mset es1) = image_mset prod.swap (mset (map prod.swap es))"
    by simp
  then have "mset (map prod.swap es1) = mset es"
    by (simp add: multiset.map_comp)
  from range_order_rearranged [OF r this] have "range_order d (map prod.swap es1)" .
  from range_order_assign [OF this, of fmempty "{#}"] show ?thesis
    by (simp add: Flip_loop_swap make_map_def)
qed

text \<open>
  C4, as the code has it. On a map whose values can all be keys, \<^verbatim>\<open>Flip\<close> returns, in
  whatever order it visits the entries: the new keys are the old values, each with one of
  its old keys as its value, and an old value that is NaN gets one entry for each of its
  old keys. When no value that equals itself is the value of two entries, a second
  \<^verbatim>\<open>Flip\<close> returns the first mapping, in whatever order (the same \<^verbatim>\<open>*Map\<close>, but for a nil
  backing map, which comes back made and empty). Otherwise the flipped map is smaller, and
  so is the map of every second \<^verbatim>\<open>Flip\<close>, which is never the first map.
\<close>

theorem Flip_twice:
  assumes r: "range_order (data m) (ord (data m))"
    and h: "values_hashable (data m)"
  shows "\<exists>m1. Flip ord m = Inr m1
     \<and> (\<forall>c. Contains (Cmp c) m1
          = Inr ((\<exists>k. fmlookup (elems (data m)) k = Some (Cmp c)) \<or> Cmp c \<in># nans (data m)))
     \<and> (\<forall>c v. fmlookup (elems (data m1)) c = Some v \<longrightarrow>
          (\<exists>k. v = Cmp k \<and> fmlookup (elems (data m)) k = Some (Cmp c))
          \<or> v = NaN \<and> Cmp c \<in># nans (data m))
     \<and> (\<forall>v. v \<in># nans (data m1)
          \<longleftrightarrow> (\<exists>k. v = Cmp k \<and> fmlookup (elems (data m)) k = Some NaN)
              \<or> v = NaN \<and> NaN \<in># nans (data m))
     \<and> size (nans (data m1))
         = card {k. fmlookup (elems (data m)) k = Some NaN} + count (nans (data m)) NaN
     \<and> (values_distinct (data m) \<longrightarrow>
          (\<forall>ord'. range_order (data m1) (ord' (data m1)) \<longrightarrow>
             Flip ord' m1 = Inr (m\<lparr>data := Made (elems (data m)) (nans (data m))\<rparr>)
             \<and> (data m \<noteq> Nil_map \<longrightarrow> Flip ord' m1 = Inr m)))
     \<and> (\<not> values_distinct (data m) \<longrightarrow>
          Size m1 < Size m
          \<and> (\<forall>ord'. range_order (data m1) (ord' (data m1)) \<longrightarrow>
               (\<exists>m2. Flip ord' m1 = Inr m2 \<and> Size m2 < Size m) \<and> Flip ord' m1 \<noteq> Inr m))"
proof -
  define es where "es = ord (data m)"
  define xs where "xs = map prod.swap es"
  define d1 where "d1 = Made (fmap_of_list (rev (eq_entries xs))) (mset (nan_entries xs))"
  let ?m1 = "m\<lparr>data := d1\<rparr>"
  from r have r': "range_order (data m) es"
    by (simp add: es_def)
  note res = Flip_result [OF r' h xs_def d1_def]
  have c1: "Flip ord m = Inr ?m1"
    using res(1) by (simp add: Flip_def es_def)
  have c2: "\<forall>c. Contains (Cmp c) ?m1
          = Inr ((\<exists>k. fmlookup (elems (data m)) k = Some (Cmp c)) \<or> Cmp c \<in># nans (data m))"
    using res(2) by (simp add: Contains_Cmp)
  have c3: "\<forall>c v. fmlookup (elems (data ?m1)) c = Some v \<longrightarrow>
          (\<exists>k. v = Cmp k \<and> fmlookup (elems (data m)) k = Some (Cmp c))
          \<or> v = NaN \<and> Cmp c \<in># nans (data m)"
    using res(3) by simp
  have c4: "\<forall>v. v \<in># nans (data ?m1)
          \<longleftrightarrow> (\<exists>k. v = Cmp k \<and> fmlookup (elems (data m)) k = Some NaN)
              \<or> v = NaN \<and> NaN \<in># nans (data m)"
    using res(4) by simp
  have c5: "size (nans (data ?m1))
         = card {k. fmlookup (elems (data m)) k = Some NaN} + count (nans (data m)) NaN"
    using res(5) by simp
  have round: "Flip ord' ?m1 = Inr (m\<lparr>data := Made (elems (data m)) (nans (data m))\<rparr>)"
    if v: "values_distinct (data m)" and r1: "range_order (data ?m1) (ord' (data ?m1))" for ord'
  proof -
    from res(9) [OF v] have "range_order d1 (map prod.swap es)"
      by (simp add: xs_def)
    from Flip_back [OF r' this, of "ord' d1"] r1 show ?thesis
      by (simp add: Flip_def)
  qed
  have same: "m\<lparr>data := Made (elems (data m)) (nans (data m))\<rparr> = m" if "data m \<noteq> Nil_map"
    using that by (cases "data m") simp_all
  have c6: "values_distinct (data m) \<longrightarrow>
          (\<forall>ord'. range_order (data ?m1) (ord' (data ?m1)) \<longrightarrow>
             Flip ord' ?m1 = Inr (m\<lparr>data := Made (elems (data m)) (nans (data m))\<rparr>)
             \<and> (data m \<noteq> Nil_map \<longrightarrow> Flip ord' ?m1 = Inr m))"
    using round same by simp
  have less: "Size ?m1 < Size m" if "\<not> values_distinct (data m)"
    using res(8) [OF that] by (simp add: Size_def)
  have lossy: "(\<exists>m2. Flip ord' ?m1 = Inr m2 \<and> Size m2 < Size m) \<and> Flip ord' ?m1 \<noteq> Inr m"
    if v: "\<not> values_distinct (data m)" and r1: "range_order (data ?m1) (ord' (data ?m1))"
    for ord'
  proof -
    define es1 where "es1 = ord' d1"
    define xs1 where "xs1 = map prod.swap es1"
    define d2 where "d2 = Made (fmap_of_list (rev (eq_entries xs1))) (mset (nan_entries xs1))"
    from r1 have r1': "range_order d1 es1"
      by (simp add: es1_def)
    note res2 = Flip_result [OF r1' res(6) xs1_def d2_def]
    have run2: "Flip ord' ?m1 = Inr (?m1\<lparr>data := d2\<rparr>)"
      using res2(1) by (simp add: Flip_def es1_def)
    from res2(7) res(8) [OF v] have lt: "Size (?m1\<lparr>data := d2\<rparr>) < Size m"
      by (simp add: Size_def)
    have "?m1\<lparr>data := d2\<rparr> \<noteq> m"
    proof
      assume "?m1\<lparr>data := d2\<rparr> = m"
      then have "Size (?m1\<lparr>data := d2\<rparr>) = Size m"
        by (rule arg_cong)
      with lt show False by simp
    qed
    with run2 lt show ?thesis by simp
  qed
  have c7: "\<not> values_distinct (data m) \<longrightarrow>
          Size ?m1 < Size m
          \<and> (\<forall>ord'. range_order (data ?m1) (ord' (data ?m1)) \<longrightarrow>
               (\<exists>m2. Flip ord' ?m1 = Inr m2 \<and> Size m2 < Size m) \<and> Flip ord' ?m1 \<noteq> Inr m)"
    using less lossy by blast
  from c1 c2 c3 c4 c5 c6 c7 show ?thesis
    by (intro exI [of _ ?m1] conjI)
qed

theorem Flip_twice_witness:
  "range_order (data (NewFrom (of_list [(KInt 1, Cmp (KInt 9)), (KInt 2, Cmp (KInt 9))]) []))
     (listed [(Cmp (KInt 2), Cmp (KInt 9)), (Cmp (KInt 1), Cmp (KInt 9))]
       (data (NewFrom (of_list [(KInt 1, Cmp (KInt 9)), (KInt 2, Cmp (KInt 9))]) [])))
   \<and> values_hashable (data (NewFrom (of_list [(KInt 1, Cmp (KInt 9)), (KInt 2, Cmp (KInt 9))]) []))
   \<and> Flip (listed [(Cmp (KInt 1), Cmp (KInt 9)), (Cmp (KInt 2), Cmp (KInt 9))])
       (NewFrom (of_list [(KInt 1, Cmp (KInt 9)), (KInt 2, Cmp (KInt 9))]) [])
     = Inr (NewFrom (of_list [(KInt 9, Cmp (KInt 2))]) [])
   \<and> Flip (listed [(Cmp (KInt 2), Cmp (KInt 9)), (Cmp (KInt 1), Cmp (KInt 9))])
       (NewFrom (of_list [(KInt 1, Cmp (KInt 9)), (KInt 2, Cmp (KInt 9))]) [])
     = Inr (NewFrom (of_list [(KInt 9, Cmp (KInt 1))]) [])
   \<and> Flip (listed [(Cmp (KInt 9), Cmp (KInt 2))]) (NewFrom (of_list [(KInt 9, Cmp (KInt 2))]) [])
     = Inr (NewFrom (of_list [(KInt 2, Cmp (KInt 9))]) [])
   \<and> Flip (listed [(Cmp (KInt 1), Cmp (KInt 9)), (Cmp (KInt 2), Cmp (KInt 8))])
       (NewFrom (of_list [(KInt 1, Cmp (KInt 9)), (KInt 2, Cmp (KInt 8))]) [])
     = Inr (NewFrom (of_list [(KInt 8, Cmp (KInt 2)), (KInt 9, Cmp (KInt 1))]) [])
   \<and> Flip (listed [(Cmp (KInt 8), Cmp (KInt 2)), (Cmp (KInt 9), Cmp (KInt 1))])
       (NewFrom (of_list [(KInt 8, Cmp (KInt 2)), (KInt 9, Cmp (KInt 1))]) [])
     = Inr (NewFrom (of_list [(KInt 1, Cmp (KInt 9)), (KInt 2, Cmp (KInt 8))]) [])
   \<and> Flip (listed [(Cmp (KInt 1), NaN), (Cmp (KInt 2), NaN)])
       (NewFrom (of_list [(KInt 1, NaN), (KInt 2, NaN)]) [])
     = Inr (NewFrom (Made fmempty {#Cmp (KInt 1), Cmp (KInt 2)#}) [])
   \<and> Flip (listed [(NaN, Cmp (KInt 2)), (NaN, Cmp (KInt 1))])
       (NewFrom (Made fmempty {#Cmp (KInt 1), Cmp (KInt 2)#}) [])
     = Inr (NewFrom (of_list [(KInt 1, NaN), (KInt 2, NaN)]) [])
   \<and> Flip (listed []) (NewFrom Nil_map []) = Inr (NewFrom make_map [])"
proof -
  let ?m = "NewFrom (of_list [(KInt 1, Cmp (KInt 9)), (KInt 2, Cmp (KInt 9))]) []"
  let ?ord = "listed [(Cmp (KInt 2), Cmp (KInt 9)), (Cmp (KInt 1), Cmp (KInt 9))]"
  have r: "range_order (data ?m) (?ord (data ?m))"
    by (simp add: range_order_def listed_def NewFrom_def of_list_def fmupd_reorder_neq)
  have h: "values_hashable (data ?m)"
    by (auto simp add: values_hashable_def NewFrom_def of_list_def split: if_splits)
  show ?thesis
    using r h Flip_twice [of ?m ?ord, OF r h]
    by (simp add: Flip_def listed_def NewFrom_def of_list_def make_map_def fmupd_reorder_neq)
qed

text \<open>
  The claim C4 has the round trip for every map whose values are pairwise distinct. A
  value that cannot be hashed (a function value \<open>f\<close>, say) cannot become a key: on
  \<open>{1: f, 2: 9}\<close>, whose two values differ, \<^verbatim>\<open>Flip\<close> panics and no flipped map is there
  for a second call.
\<close>

theorem Flip_unhashable_value_counterexample:
  "range_order (data (NewFrom (of_list [(KInt 1, Func 0), (KInt 2, Cmp (KInt 9))]) []))
     (listed [(Cmp (KInt 1), Func 0), (Cmp (KInt 2), Cmp (KInt 9))]
       (data (NewFrom (of_list [(KInt 1, Func 0), (KInt 2, Cmp (KInt 9))]) [])))
   \<and> distinct (map snd [(Cmp (KInt 1), Func 0), (Cmp (KInt 2), Cmp (KInt 9))])
   \<and> values_distinct (data (NewFrom (of_list [(KInt 1, Func 0), (KInt 2, Cmp (KInt 9))]) []))
   \<and> Flip (listed [(Cmp (KInt 1), Func 0), (Cmp (KInt 2), Cmp (KInt 9))])
       (NewFrom (of_list [(KInt 1, Func 0), (KInt 2, Cmp (KInt 9))]) [])
     = Inl Unhashable"
proof -
  have "values_distinct (data (NewFrom (of_list [(KInt 1, Func 0), (KInt 2, Cmp (KInt 9))]) []))"
    by (auto simp add: values_distinct_def NewFrom_def of_list_def split: if_splits)
  then show ?thesis
    by (simp add: range_order_def Flip_def listed_def NewFrom_def of_list_def make_map_def)
qed

subsection \<open>Which keys a program leaves in the map\<close>

lemma mapassign_present:
  "mapassign d key v = Inr d1 \<Longrightarrow>
   fmlookup (elems d1) k \<noteq> None \<longleftrightarrow> key = Cmp k \<or> fmlookup (elems d) k \<noteq> None"
  by (cases d; cases key) auto

lemma mapdelete_present:
  "mapdelete d key = Inr d1 \<Longrightarrow>
   fmlookup (elems d1) k \<noteq> None \<longleftrightarrow> fmlookup (elems d) k \<noteq> None \<and> key \<noteq> Cmp k"
  by (cases d; cases key) (auto split: if_splits)

lemma mapaccess_Some:
  "mapaccess d key = Inr (Some v) \<Longrightarrow> \<exists>k0. key = Cmp k0 \<and> fmlookup (elems d) k0 = Some v"
  by (cases key) simp_all

lemma range_assign_present:
  "range_assign es d = Inr d1 \<Longrightarrow>
   fmlookup (elems d1) k \<noteq> None \<longleftrightarrow> fmlookup (elems d) k \<noteq> None \<or> Cmp k \<in> fst ` set es"
proof (induction es arbitrary: d)
  case Nil
  then show ?case by simp
next
  case (Cons x es)
  obtain key v where x: "x = (key, v)" by (cases x)
  with Cons.prems obtain d2 where
    a: "mapassign d key v = Inr d2" and b: "range_assign es d2 = Inr d1"
    by (auto simp add: bind_eq_Inr)
  from Cons.IH [OF b] mapassign_present [OF a, of k] x show ?case
    by auto
qed

lemma Removes_loop_present:
  "Removes_loop keys d = Inr d1 \<Longrightarrow>
   fmlookup (elems d1) k \<noteq> None \<longleftrightarrow> fmlookup (elems d) k \<noteq> None \<and> Cmp k \<notin> set keys"
proof (induction keys arbitrary: d)
  case Nil
  then show ?case by simp
next
  case (Cons key keys)
  from Cons.prems obtain d2 where
    a: "mapdelete d key = Inr d2" and b: "Removes_loop keys d2 = Inr d1"
    by (auto simp add: bind_eq_Inr)
  from Cons.IH [OF b] mapdelete_present [OF a, of k] show ?case
    by auto
qed

lemma Flip_loop_present:
  "Flip_loop es n0 = Inr n \<Longrightarrow>
   fmlookup (elems n) k \<noteq> None \<longleftrightarrow> fmlookup (elems n0) k \<noteq> None \<or> Cmp k \<in> snd ` set es"
proof -
  assume "Flip_loop es n0 = Inr n"
  then have "range_assign (map prod.swap es) n0 = Inr n"
    by (simp add: Flip_loop_swap)
  from range_assign_present [OF this, of k] show ?thesis
    by (simp add: image_image)
qed

lemma NewFromArray_loop_present:
  assumes "NewFromArray_loop keys vs i m = Inr m'"
  shows "fmlookup (elems m') k \<noteq> None \<longleftrightarrow> fmlookup (elems m) k \<noteq> None \<or> Cmp k \<in> set keys"
proof -
  let ?pads = "map (\<lambda>j. if j < length vs then vs ! j else nil) [i..<i + length keys]"
  from assms have "range_assign (zip keys ?pads) m = Inr m'"
    by (simp add: NewFromArray_loop_range_assign)
  from range_assign_present [OF this, of k] fst_set_zip [of keys ?pads] show ?thesis
    by simp
qed

lemma Remove_present:
  "Remove key m = Inr (v, m1) \<Longrightarrow>
   fmlookup (elems (data m1)) k \<noteq> None \<longleftrightarrow> fmlookup (elems (data m)) k \<noteq> None \<and> key \<noteq> Cmp k"
  by (cases key; cases "data m") (auto simp add: Remove_def split: option.splits if_splits)

lemma map_pureD: "map_pure call \<Longrightarrow> call f (d, w) = Some (r, d', w') \<Longrightarrow> d' = d"
  unfolding map_pure_def by blast

lemma invoke_pure:
  "map_pure call \<Longrightarrow> invoke call f s = Inr (r, s1) \<Longrightarrow> data (recv s1) = data (recv s)"
  by (auto simp add: invoke_def split: option.splits dest: map_pureD)

lemma doSetWithLockCheck_present_after:
  assumes pure: "map_pure call"
    and run: "doSetWithLockCheck call key v s = Inr (r, s1)"
  shows "fmlookup (elems (data (recv s1))) k \<noteq> None
     \<longleftrightarrow> key = Cmp k \<or> fmlookup (elems (data (recv s))) k \<noteq> None"
proof -
  from run obtain r0 where
    a: "mapaccess (data (recv s)) key = Inr r0"
    and b: "(case r0 of
          Some v \<Rightarrow> Inr (v, s)
        | None \<Rightarrow>
            bind (case v of Func f \<Rightarrow> invoke call f s | _ \<Rightarrow> Inr (v, s))
              (\<lambda>(value', s').
                 bind (mapassign (data (recv s')) key value')
                   (\<lambda>d. Inr (value', s'\<lparr>recv := (recv s')\<lparr>data := d\<rparr>\<rparr>)))) = Inr (r, s1)"
    by (auto simp add: doSetWithLockCheck_def bind_eq_Inr)
  show ?thesis
  proof (cases r0)
    case (Some v0)
    with b have "s1 = s" by simp
    with mapaccess_Some [of "data (recv s)" key v0] a Some show ?thesis
      by auto
  next
    case None
    with b obtain value' s2 d2 where
      c: "(case v of Func f \<Rightarrow> invoke call f s | _ \<Rightarrow> Inr (v, s)) = Inr (value', s2)"
      and d: "mapassign (data (recv s2)) key value' = Inr d2"
      and s1: "s1 = s2\<lparr>recv := (recv s2)\<lparr>data := d2\<rparr>\<rparr>"
      by (auto simp add: bind_eq_Inr)
    from c pure have "data (recv s2) = data (recv s)"
      by (cases v) (auto dest: invoke_pure)
    with mapassign_present [OF d, of k] s1 show ?thesis
      by simp
  qed
qed

lemma Search_found:
  "Search key m = Inr (v, True) \<Longrightarrow> \<exists>k0. key = Cmp k0 \<and> fmlookup (elems (data m)) k0 \<noteq> None"
  by (cases key) (auto simp add: Search_def split: option.splits)

lemma Contains_found:
  "Contains key m = Inr True \<Longrightarrow> \<exists>k0. key = Cmp k0 \<and> fmlookup (elems (data m)) k0 \<noteq> None"
  by (cases key) (auto simp add: Contains_def split: option.splits)

lemma GetOrSet_present_after:
  assumes "map_pure call" and "GetOrSet call (\<lambda>s. s) key v s = Inr (r, s1)"
  shows "fmlookup (elems (data (recv s1))) k \<noteq> None
     \<longleftrightarrow> key = Cmp k \<or> fmlookup (elems (data (recv s))) k \<noteq> None"
proof -
  from assms(2) obtain v0 ok where
    a: "Search key (recv s) = Inr (v0, ok)"
    and b: "(if \<not> ok then doSetWithLockCheck call key v s else Inr (v0, s)) = Inr (r, s1)"
    by (auto simp add: GetOrSet_def bind_eq_Inr)
  show ?thesis
  proof (cases ok)
    case True
    with b have "s1 = s" by simp
    with Search_found [of key "recv s" v0] a True show ?thesis
      by auto
  next
    case False
    with b have "doSetWithLockCheck call key v s = Inr (r, s1)" by simp
    from doSetWithLockCheck_present_after [OF assms(1) this] show ?thesis .
  qed
qed

lemma GetOrSetFunc_present_after:
  assumes "map_pure call" and "GetOrSetFunc call (\<lambda>s. s) (\<lambda>s. s) key f s = Inr (r, s1)"
  shows "fmlookup (elems (data (recv s1))) k \<noteq> None
     \<longleftrightarrow> key = Cmp k \<or> fmlookup (elems (data (recv s))) k \<noteq> None"
proof -
  from assms(2) obtain v0 ok where
    a: "Search key (recv s) = Inr (v0, ok)"
    and b: "(if \<not> ok
          then bind (invoke call f s) (\<lambda>(r, s'). doSetWithLockCheck call key r s')
          else Inr (v0, s)) = Inr (r, s1)"
    by (auto simp add: GetOrSetFunc_def bind_eq_Inr)
  show ?thesis
  proof (cases ok)
    case True
    with b have "s1 = s" by simp
    with Search_found [of key "recv s" v0] a True show ?thesis
      by auto
  next
    case False
    with b obtain r' s2 where
      i: "invoke call f s = Inr (r', s2)"
      and d: "doSetWithLockCheck call key r' s2 = Inr (r, s1)"
      by (auto simp add: bind_eq_Inr)
    from invoke_pure [OF assms(1) i] doSetWithLockCheck_present_after [OF assms(1) d, of k]
    show ?thesis by simp
  qed
qed

lemma GetOrSetFuncLock_present_after:
  assumes "map_pure call" and "GetOrSetFuncLock call (\<lambda>s. s) key f s = Inr (r, s1)"
  shows "fmlookup (elems (data (recv s1))) k \<noteq> None
     \<longleftrightarrow> key = Cmp k \<or> fmlookup (elems (data (recv s))) k \<noteq> None"
proof -
  have "GetOrSetFuncLock call (\<lambda>s. s) key f s = GetOrSet call (\<lambda>s. s) key (Func f) s"
    by (simp add: GetOrSetFuncLock_def GetOrSet_def)
  with assms(2) have "GetOrSet call (\<lambda>s. s) key (Func f) s = Inr (r, s1)"
    by simp
  from GetOrSet_present_after [OF assms(1) this] show ?thesis .
qed

lemma SetIfNotExist_present_after:
  assumes "map_pure call" and "SetIfNotExist call (\<lambda>s. s) key v s = Inr (r, s1)"
  shows "fmlookup (elems (data (recv s1))) k \<noteq> None
     \<longleftrightarrow> key = Cmp k \<or> fmlookup (elems (data (recv s))) k \<noteq> None"
proof -
  from assms(2) obtain ok where
    a: "Contains key (recv s) = Inr ok"
    and b: "(if \<not> ok
          then bind (doSetWithLockCheck call key v s) (\<lambda>(_, s'). Inr (True, s'))
          else Inr (False, s)) = Inr (r, s1)"
    by (auto simp add: SetIfNotExist_def bind_eq_Inr)
  show ?thesis
  proof (cases ok)
    case True
    with b have "s1 = s" by simp
    with Contains_found [of key "recv s"] a True show ?thesis
      by auto
  next
    case False
    with b obtain r' where "doSetWithLockCheck call key v s = Inr (r', s1)"
      by (auto simp add: bind_eq_Inr)
    from doSetWithLockCheck_present_after [OF assms(1) this] show ?thesis .
  qed
qed

lemma SetIfNotExistFunc_present_after:
  assumes "map_pure call" and "SetIfNotExistFunc call (\<lambda>s. s) (\<lambda>s. s) key f s = Inr (r, s1)"
  shows "fmlookup (elems (data (recv s1))) k \<noteq> None
     \<longleftrightarrow> key = Cmp k \<or> fmlookup (elems (data (recv s))) k \<noteq> None"
proof -
  from assms(2) obtain ok where
    a: "Contains key (recv s) = Inr ok"
    and b: "(if \<not> ok
          then bind (invoke call f s)
                 (\<lambda>(r, s'). bind (doSetWithLockCheck call key r s') (\<lambda>(_, s''). Inr (True, s'')))
          else Inr (False, s)) = Inr (r, s1)"
    by (auto simp add: SetIfNotExistFunc_def bind_eq_Inr)
  show ?thesis
  proof (cases ok)
    case True
    with b have "s1 = s" by simp
    with Contains_found [of key "recv s"] a True show ?thesis
      by auto
  next
    case False
    with b obtain r' s2 r'' where
      i: "invoke call f s = Inr (r', s2)"
      and d: "doSetWithLockCheck call key r' s2 = Inr (r'', s1)"
      by (auto simp add: bind_eq_Inr)
    from invoke_pure [OF assms(1) i] doSetWithLockCheck_present_after [OF assms(1) d, of k]
    show ?thesis by simp
  qed
qed

lemma SetIfNotExistFuncLock_present_after:
  assumes "map_pure call" and "SetIfNotExistFuncLock call (\<lambda>s. s) key f s = Inr (r, s1)"
  shows "fmlookup (elems (data (recv s1))) k \<noteq> None
     \<longleftrightarrow> key = Cmp k \<or> fmlookup (elems (data (recv s))) k \<noteq> None"
proof -
  have "SetIfNotExistFuncLock call (\<lambda>s. s) key f s = SetIfNotExist call (\<lambda>s. s) key (Func f) s"
    by (simp add: SetIfNotExistFuncLock_def SetIfNotExist_def)
  with assms(2) have "SetIfNotExist call (\<lambda>s. s) key (Func f) s = Inr (r, s1)"
    by simp
  from SetIfNotExist_present_after [OF assms(1) this] show ?thesis .
qed

lemma exec_present:
  assumes pure: "map_pure call" and ex: "exec call x s = Inr s1"
  shows "fmlookup (elems (data (recv s1))) k \<noteq> None
     \<longleftrightarrow> stores x s k \<or> fmlookup (elems (data (recv s))) k \<noteq> None \<and> \<not> removes x k"
proof (cases x)
  case (DoSet key v)
  with ex obtain d1 where "mapassign (data (recv s)) key v = Inr d1" "data (recv s1) = d1"
    by (auto simp add: Set_def bind_eq_Inr)
  with mapassign_present [of "data (recv s)" key v d1 k] DoSet show ?thesis
    by auto
next
  case (DoSets ord d)
  with ex obtain d1 where "range_assign (ord d) (data (recv s)) = Inr d1" "data (recv s1) = d1"
    by (auto simp add: Sets_def bind_eq_Inr)
  with range_assign_present [of "ord d" "data (recv s)" d1 k] DoSets show ?thesis
    by auto
next
  case (DoGetOrSet key v)
  with ex obtain r where "GetOrSet call (\<lambda>s. s) key v s = Inr (r, s1)"
    by (auto simp add: bind_eq_Inr)
  from GetOrSet_present_after [OF pure this, of k] DoGetOrSet show ?thesis
    by auto
next
  case (DoGetOrSetFunc key f)
  with ex obtain r where "GetOrSetFunc call (\<lambda>s. s) (\<lambda>s. s) key f s = Inr (r, s1)"
    by (auto simp add: bind_eq_Inr)
  from GetOrSetFunc_present_after [OF pure this, of k] DoGetOrSetFunc show ?thesis
    by auto
next
  case (DoGetOrSetFuncLock key f)
  with ex obtain r where "GetOrSetFuncLock call (\<lambda>s. s) key f s = Inr (r, s1)"
    by (auto simp add: bind_eq_Inr)
  from GetOrSetFuncLock_present_after [OF pure this, of k] DoGetOrSetFuncLock show ?thesis
    by auto
next
  case (DoSetIfNotExist key v)
  with ex obtain r where "SetIfNotExist call (\<lambda>s. s) key v s = Inr (r, s1)"
    by (auto simp add: bind_eq_Inr)
  from SetIfNotExist_present_after [OF pure this, of k] DoSetIfNotExist show ?thesis
    by auto
next
  case (DoSetIfNotExistFunc key f)
  with ex obtain r where "SetIfNotExistFunc call (\<lambda>s. s) (\<lambda>s. s) key f s = Inr (r, s1)"
    by (auto simp add: bind_eq_Inr)
  from SetIfNotExistFunc_present_after [OF pure this, of k] DoSetIfNotExistFunc show ?thesis
    by auto
next
  case (DoSetIfNotExistFuncLock key f)
  with ex obtain r where "SetIfNotExistFuncLock call (\<lambda>s. s) key f s = Inr (r, s1)"
    by (auto simp add: bind_eq_Inr)
  from SetIfNotExistFuncLock_present_after [OF pure this, of k] DoSetIfNotExistFuncLock
  show ?thesis
    by auto
next
  case (DoRemove key)
  with ex obtain v where "Remove key (recv s) = Inr (v, recv s1)"
    by (auto simp add: bind_eq_Inr)
  from Remove_present [OF this, of k] DoRemove show ?thesis
    by auto
next
  case (DoRemoves keys)
  with ex obtain d1 where "Removes_loop keys (data (recv s)) = Inr d1" "data (recv s1) = d1"
    by (auto simp add: Removes_def bind_eq_Inr)
  with Removes_loop_present [of keys "data (recv s)" d1 k] DoRemoves show ?thesis
    by auto
next
  case DoClear
  with ex show ?thesis
    by (auto simp add: Clear_def make_map_def)
next
  case (DoFlip ord)
  with ex obtain n where "Flip_loop (ord (data (recv s))) make_map = Inr n" "data (recv s1) = n"
    by (auto simp add: Flip_def bind_eq_Inr)
  with Flip_loop_present [of "ord (data (recv s))" make_map n k] DoFlip show ?thesis
    by (auto simp add: make_map_def)
next
  case (DoMerge ord other)
  with ex obtain d1 where
    "range_assign (ord (data other)) (data (recv s)) = Inr d1" "data (recv s1) = d1"
    by (auto simp add: Merge_def bind_eq_Inr)
  with range_assign_present [of "ord (data other)" "data (recv s)" d1 k] DoMerge show ?thesis
    by auto
qed

lemma stored_and_kept_present:
  assumes pure: "map_pure call"
  shows "run call xs s = Inr s' \<Longrightarrow>
     fmlookup (elems (data (recv s'))) k \<noteq> None
       \<longleftrightarrow> fmlookup (elems (data (recv s))) k \<noteq> None
             \<and> list_all (\<lambda>(s', x'). \<not> removes x' k) (trace call xs s)
           \<or> stored_and_kept stores (trace call xs s) k"
proof (induction xs arbitrary: s)
  case Nil
  then show ?case by simp
next
  case (Cons x xs)
  from Cons.prems obtain s1 where
    ex: "exec call x s = Inr s1" and rest: "run call xs s1 = Inr s'"
    by (auto simp add: bind_eq_Inr)
  note step = exec_present [OF pure ex, of k]
  note ih = Cons.IH [OF rest]
  from ex have tr: "trace call (x # xs) s = (s, x) # trace call xs s1"
    by simp
  show ?case
    unfolding tr ih step by auto
qed

text \<open>The recursion of \<open>stored_and_kept\<close> says what the sentence says.\<close>

lemma stored_and_kept_iff:
  "stored_and_kept st tr k \<longleftrightarrow>
     (\<exists>pre s x post. tr = pre @ (s, x) # post \<and> st x s k
        \<and> (\<forall>(s', x') \<in> set post. \<not> removes x' k))"
proof (induction tr)
  case Nil
  then show ?case by simp
next
  case (Cons e tr)
  obtain s0 x0 where e: "e = (s0, x0)" by (cases e)
  show ?case
  proof
    assume "stored_and_kept st (e # tr) k"
    with e consider "st x0 s0 k" "list_all (\<lambda>(s', x'). \<not> removes x' k) tr"
      | "stored_and_kept st tr k"
      by auto
    then show "\<exists>pre s x post. e # tr = pre @ (s, x) # post \<and> st x s k
        \<and> (\<forall>(s', x') \<in> set post. \<not> removes x' k)"
    proof cases
      case 1
      then have "e # tr = [] @ (s0, x0) # tr \<and> st x0 s0 k
          \<and> (\<forall>(s', x') \<in> set tr. \<not> removes x' k)"
        using e by (simp add: list_all_iff)
      then show ?thesis by blast
    next
      case 2
      with Cons.IH obtain pre s x post where
        "tr = pre @ (s, x) # post" "st x s k" "\<forall>(s', x') \<in> set post. \<not> removes x' k"
        by blast
      then have "e # tr = (e # pre) @ (s, x) # post \<and> st x s k
          \<and> (\<forall>(s', x') \<in> set post. \<not> removes x' k)"
        by simp
      then show ?thesis by blast
    qed
  next
    assume "\<exists>pre s x post. e # tr = pre @ (s, x) # post \<and> st x s k
        \<and> (\<forall>(s', x') \<in> set post. \<not> removes x' k)"
    then obtain pre s x post where
      d: "e # tr = pre @ (s, x) # post" and st: "st x s k"
      and keep: "\<forall>(s', x') \<in> set post. \<not> removes x' k"
      by blast
    show "stored_and_kept st (e # tr) k"
    proof (cases pre)
      case Nil
      with d e st keep show ?thesis
        by (auto simp add: list_all_iff)
    next
      case (Cons p pre')
      with d have "tr = pre' @ (s, x) # post" by simp
      with st keep Cons.IH have "stored_and_kept st tr k" by blast
      with e show ?thesis by simp
    qed
  qed
qed

text \<open>
  C8, as the code has it. Take a map made by a constructor and a program of the operations
  above that returns, whose function values do not change the map. A key that equals
  itself is in the map at the end exactly when the constructor or an operation stored a
  value under it and no later operation removed it, where \<^verbatim>\<open>Flip\<close> both removes every key
  and stores under every value that the map had. A NaN key is never found, whatever was
  stored under it, and asking for a key that cannot be hashed panics.
\<close>

theorem present_iff_stored_and_kept:
  assumes "map_pure call"
    and "construct c unsafe = Inr (recv s)"
    and "run call xs s = Inr s'"
  shows "Contains (Cmp k) (recv s') = Inr (present_by_history stores c (trace call xs s) k)
     \<and> Contains NaN (recv s') = Inr False
     \<and> (\<forall>key. \<not> hashable key \<longrightarrow> Contains key (recv s') = Inl Unhashable)"
proof -
  have "fmlookup (elems (data (recv s))) k \<noteq> None \<longleftrightarrow> ctor_stores c k"
  proof (cases c)
    case ByNew
    with assms(2) have "data (recv s) = make_map"
      by (auto simp add: New_def dest: arg_cong [where f = data])
    with ByNew show ?thesis by (simp add: make_map_def)
  next
    case (ByNewFrom d)
    with assms(2) have "data (recv s) = d"
      by (auto simp add: NewFrom_def dest: arg_cong [where f = data])
    with ByNewFrom show ?thesis by simp
  next
    case (ByNewFromArray keys vs)
    with assms(2) obtain d where
      "NewFromArray_loop keys vs 0 make_map = Inr d" "data (recv s) = d"
      by (auto simp add: NewFromArray_def bind_eq_Inr dest: arg_cong [where f = data])
    with NewFromArray_loop_present [of keys vs 0 make_map d k] ByNewFromArray show ?thesis
      by (simp add: make_map_def)
  qed
  with stored_and_kept_present [OF assms(1,3), of k]
  have "Contains (Cmp k) (recv s') = Inr (present_by_history stores c (trace call xs s) k)"
    by (simp add: Contains_Cmp present_by_history_def)
  moreover have "Contains key (recv s') = Inl Unhashable" if "\<not> hashable key" for key
    using that by (cases key) (simp_all add: Contains_def)
  ultimately show ?thesis
    by (simp add: Contains_NaN)
qed

theorem present_iff_stored_and_kept_witness:
  "map_pure (returning (Cmp (KInt 7)))
   \<and> construct ByNew [] = Inr (recv (alone (New [])))
   \<and> run (returning (Cmp (KInt 7)))
       [DoSet (Cmp (KInt 1)) (Cmp (KInt 9)), DoGetOrSet (Cmp (KInt 2)) (Func 0),
        DoRemove (Cmp (KInt 1)), DoFlip (listed [(Cmp (KInt 2), Cmp (KInt 7))]),
        DoSet NaN (Cmp (KInt 5))]
       (alone (New []))
     = Inr \<lparr>recv = NewFrom (Made (fmap_of_list [(KInt 7, Cmp (KInt 2))]) {#Cmp (KInt 5)#}) [],
         world = (), invoked = [0]\<rparr>
   \<and> Contains (Cmp (KInt 7))
       (NewFrom (Made (fmap_of_list [(KInt 7, Cmp (KInt 2))]) {#Cmp (KInt 5)#}) [])
     = Inr True
   \<and> present_by_history stores ByNew
       (trace (returning (Cmp (KInt 7)))
         [DoSet (Cmp (KInt 1)) (Cmp (KInt 9)), DoGetOrSet (Cmp (KInt 2)) (Func 0),
          DoRemove (Cmp (KInt 1)), DoFlip (listed [(Cmp (KInt 2), Cmp (KInt 7))]),
          DoSet NaN (Cmp (KInt 5))]
         (alone (New [])))
       (KInt 7)
   \<and> Contains (Cmp (KInt 1))
       (NewFrom (Made (fmap_of_list [(KInt 7, Cmp (KInt 2))]) {#Cmp (KInt 5)#}) [])
     = Inr False
   \<and> Contains NaN (NewFrom (Made (fmap_of_list [(KInt 7, Cmp (KInt 2))]) {#Cmp (KInt 5)#}) [])
     = Inr False"
proof -
  let ?call = "returning (Cmp (KInt 7))"
  let ?xs = "[DoSet (Cmp (KInt 1)) (Cmp (KInt 9)), DoGetOrSet (Cmp (KInt 2)) (Func 0),
        DoRemove (Cmp (KInt 1)), DoFlip (listed [(Cmp (KInt 2), Cmp (KInt 7))]),
        DoSet NaN (Cmp (KInt 5))]"
  let ?s' = "\<lparr>recv = NewFrom (Made (fmap_of_list [(KInt 7, Cmp (KInt 2))]) {#Cmp (KInt 5)#}) [],
         world = (), invoked = [0::nat]\<rparr>"
  have p: "map_pure ?call"
    by (simp add: map_pure_def returning_def)
  have c: "construct ByNew [] = Inr (recv (alone (New [])))"
    by (simp add: alone_def)
  have r: "run ?call ?xs (alone (New [])) = Inr ?s'"
    by (simp add: alone_def New_def NewFrom_def make_map_def Set_def GetOrSet_def Search_Cmp
        doSetWithLockCheck_Func returning_def Remove_def Flip_def listed_def fmdrop_fmupd)
  from present_iff_stored_and_kept [OF p c r, of "KInt 7"]
    present_iff_stored_and_kept [OF p c r, of "KInt 1"] p c r
  show ?thesis
    by (simp add: Contains_Cmp Contains_NaN NewFrom_def)
qed

text \<open>
  The claim C8 counts \<^verbatim>\<open>Flip\<close> among the operations that remove a key and not among
  those that store one. After \<^verbatim>\<open>Set(1, 9)\<close> and \<^verbatim>\<open>Flip()\<close> on the empty map the key 9 is
  in the map, and none of the operations that the claim lists stored a value under 9. The
  claim also speaks of every key: after \<^verbatim>\<open>Set(NaN, 5)\<close> on the empty map a value is stored
  under NaN and nothing removed it, the map has one entry, and \<^verbatim>\<open>Contains(NaN)\<close> is false.
\<close>

theorem Flip_stores_counterexample:
  "run (returning nil)
       [DoSet (Cmp (KInt 1)) (Cmp (KInt 9)), DoFlip (listed [(Cmp (KInt 1), Cmp (KInt 9))])]
       (alone (New []))
     = Inr (alone (NewFrom (of_list [(KInt 9, Cmp (KInt 1))]) []))
   \<and> range_order (of_list [(KInt 1, Cmp (KInt 9))])
       (listed [(Cmp (KInt 1), Cmp (KInt 9))] (of_list [(KInt 1, Cmp (KInt 9))]))
   \<and> Contains (Cmp (KInt 9)) (NewFrom (of_list [(KInt 9, Cmp (KInt 1))]) []) = Inr True
   \<and> \<not> present_by_history stores_listed ByNew
       (trace (returning nil)
         [DoSet (Cmp (KInt 1)) (Cmp (KInt 9)), DoFlip (listed [(Cmp (KInt 1), Cmp (KInt 9))])]
         (alone (New [])))
       (KInt 9)
   \<and> run (returning nil) [DoSet NaN (Cmp (KInt 5))] (alone (New []))
     = Inr (alone (NewFrom (Made fmempty {#Cmp (KInt 5)#}) []))
   \<and> Size (NewFrom (Made fmempty {#Cmp (KInt 5)#}) []) = 1
   \<and> Contains NaN (NewFrom (Made fmempty {#Cmp (KInt 5)#}) []) = Inr False"
  by (simp add: alone_def New_def NewFrom_def of_list_def make_map_def Set_def Flip_def
      listed_def range_order_def Contains_Cmp Contains_NaN present_by_history_def Size_def
      len_def)

end
